theory Spec2Isabelle
  imports Main
begin

section \<open>The two framing variants and their status codes\<close>

text \<open>
  The repository holds two versions of the streaming codec.
  \<^item> \<open>JsonArray\<close>: \<^verbatim>\<open>stringifyAsync\<close> / \<^verbatim>\<open>parseAsync\<close> (file part_000); the root chunk is
    the synchronous encoding followed by a newline, a producer chunk is
    \<^verbatim>\<open>[id,status,payload]\<close> followed by a newline.
  \<^item> \<open>Delimited\<close>: \<^verbatim>\<open>stringifyAsyncIterable\<close> / \<^verbatim>\<open>parseAsyncIterable\<close> (file src/async.js);
    a producer chunk is \<^verbatim>\<open>id:status:payload\<close>.
  Every definition below that differs between the two files takes the variant as its
  first argument and branches on it where the files differ.

  The code is asynchronous. The model keeps its suspension points and leaves out time: an
  encoder and a decoder are state machines, moved by what their environment does (the
  consumer pulls or abandons, a source answers, a chunk arrives), in any order the
  schedule gives. Between two such events the code runs to its next suspension in one
  step; in particular a reviver that has been sent something reads it before the next
  event (its continuation is queued when the pump enqueues, ahead of whatever resumes the
  pump). The \<^verbatim>\<open>finally\<close> block of a reviver of \<open>JsonArray\<close> removes the id from
  \<^verbatim>\<open>enqueueMap\<close> before its first \<^verbatim>\<open>await\<close>, so it is part of that step; the one of
  \<open>Delimited\<close> awaits \<^verbatim>\<open>reader.cancel()\<close> first, and goes on at an event of its own. A
  source that is awaited can always answer; one that never does is a schedule that never
  lets it.
\<close>

datatype framing = JsonArray | Delimited

definition PROMISE_STATUS_FULFILLED :: nat where
  "PROMISE_STATUS_FULFILLED = 0"

definition PROMISE_STATUS_REJECTED :: nat where
  "PROMISE_STATUS_REJECTED = 1"

definition ASYNC_ITERABLE_STATUS_YIELD :: nat where
  "ASYNC_ITERABLE_STATUS_YIELD = 0"

definition ASYNC_ITERABLE_STATUS_ERROR :: "framing \<Rightarrow> nat" where
  "ASYNC_ITERABLE_STATUS_ERROR f = (case f of JsonArray \<Rightarrow> 1 | Delimited \<Rightarrow> 2)"

definition ASYNC_ITERABLE_STATUS_RETURN :: "framing \<Rightarrow> nat" where
  "ASYNC_ITERABLE_STATUS_RETURN f = (case f of JsonArray \<Rightarrow> 2 | Delimited \<Rightarrow> 1)"

section \<open>Values\<close>

text \<open>
  A source value is plain data, an instance of a user class (\<open>VObject tag v\<close>: an
  instance of the class \<open>tag\<close> that the reducer registered under \<open>tag\<close>, when one is
  installed, reduces to \<open>v\<close>; an \<^verbatim>\<open>Error\<close> is such an instance), a Promise, or an
  AsyncIterable. A Promise carries the way it settles; an AsyncIterable carries the items
  its iterator yields and the way it ends. \<^verbatim>\<open>isPromise\<close> accepts every object with a
  \<^verbatim>\<open>then\<close> method: \<open>VPromise\<close> stands for those that also have a \<^verbatim>\<open>catch\<close> method (a
  Promise has), \<open>VThenable\<close> for one that has none. Time is not modelled: which of several
  pending sources settles first is decided by the schedule given to the encoder.
\<close>

datatype val =
    VNum int
  | VStr string
  | VArr "val list"
  | VObject string val
  | VPromise settle
  | VThenable
  | VAsyncIterable "val list" finish
and settle = Fulfill val | Reject val
and finish = Return val | Throw val

text \<open>
  The output of the synchronous codec, before it is written as text: the same tree with
  a placeholder carrying the producer id wherever a Promise or an AsyncIterable stood. The
  same type stands for what \<^verbatim>\<open>JSON.parse\<close> returns, a flattened value being the tree
  it denotes; \<open>PInvalid\<close> is a parsed value that is no flattened value (a number that is
  not negative, for one), which only a decoder meets.
\<close>

datatype payload =
    PNum int
  | PStr string
  | PArr "payload list"
  | PObject string payload
  | PPromise nat
  | PAsyncIterable nat
  | PInvalid

text \<open>
  The text layer of the synchronous codec and \<^verbatim>\<open>JSON.parse\<close>, neither of which is in
  the sources, are parameters: \<open>render\<close> writes a payload as text, \<open>JSON_parse\<close> reads a
  text, with \<open>None\<close> where \<^verbatim>\<open>JSON.parse\<close> throws a SyntaxError.
\<close>

record textcodec =
  render :: "payload \<Rightarrow> string"
  JSON_parse :: "string \<Rightarrow> payload option"

record options =
  revivers :: "string list"
  coerceError :: "(val \<Rightarrow> val + val) option"

text \<open>
  \<open>revivers\<close> lists the tags of the user's reducers (the source spreads
  \<^verbatim>\<open>options.revivers\<close> into the reducers of \<^verbatim>\<open>stringify\<close>). \<open>coerceError\<close> is a user
  function; \<open>Inl\<close> is what it throws.
\<close>

section \<open>The encoder: producers and their registry\<close>

datatype kind = KPromise | KSeq

text \<open>
  The control point of a producer (the async generator handed to
  \<^verbatim>\<open>registerAsyncIterable\<close>):
  \<^item> \<open>AwaitPromise s\<close>: at \<^verbatim>\<open>await v\<close>, where \<open>v\<close> settles as \<open>s\<close>;
  \<^item> \<open>Throwing x\<close>: the body has thrown \<open>x\<close> outside its \<^verbatim>\<open>try\<close>, and the \<^verbatim>\<open>next()\<close>
    that ran it is rejected with \<open>x\<close>; the rejection reaches \<open>nextPromise\<close>, like every
    settlement, at the step \<open>Settle\<close> of the producer;
  \<^item> \<open>AwaitNext xs fin\<close>: at \<^verbatim>\<open>await iterator.next()\<close>, the source still having the
    items \<open>xs\<close> and the end \<open>fin\<close> to give;
  \<^item> \<open>AtYield xs fin\<close>: suspended at the \<^verbatim>\<open>yield\<close> of a YIELD frame;
  \<^item> \<open>AtFinalYield k\<close>: suspended at the \<^verbatim>\<open>yield\<close> of a frame after which the
    generator has nothing more to emit (\<open>JsonArray\<close> only: in \<open>Delimited\<close> such a frame
    is the generator's return value);
  \<^item> \<open>Completed\<close>: the generator has finished.
\<close>

datatype gen =
    AwaitPromise settle
  | Throwing val
  | AwaitNext "val list" finish
  | AtYield "val list" finish
  | AtFinalYield kind
  | Completed

type_synonym frame = "nat \<times> nat \<times> string"

datatype iter_result = IterResult (res_value: "frame option") (res_done: bool)

datatype next_promise = Pending | Resolved iter_result | Rejected val

text \<open>
  An entry of \<^verbatim>\<open>buffer\<close>: the producer's generator (\<open>iterator\<close>, with the id its
  closure holds and whether a \<^verbatim>\<open>return()\<close> request is queued behind its running
  \<^verbatim>\<open>next()\<close>) and \<open>nextPromise\<close>.
\<close>

datatype entry =
  Entry (eid: nat) (iterator: gen) (return_queued: bool) (nextPromise: next_promise)

text \<open>
  The control point of \<^verbatim>\<open>stringifyAsync\<close> itself: not started (holding the root
  value), suspended at the \<^verbatim>\<open>yield\<close> of the root chunk, suspended at the \<^verbatim>\<open>yield\<close> of
  a producer chunk (holding the local variable \<^verbatim>\<open>entry\<close>), awaiting \<^verbatim>\<open>Promise.race\<close>,
  awaiting \<^verbatim>\<open>Promise.allSettled\<close> in the \<^verbatim>\<open>finally\<close> block with the completion to
  resume afterwards, finished, or failed with the thrown value.
\<close>

datatype control =
    NotStarted val
  | AtRootYield
  | AtChunkYield entry
  | Racing
  | Closing "val option"
  | Finished
  | Failed val

text \<open>
  \<open>counter\<close> and \<open>buffer\<close> are the variables of the source (a \<^verbatim>\<open>Set\<close> in insertion
  order). \<open>registrations\<close> (the ids returned by \<^verbatim>\<open>registerAsyncIterable\<close>, in call order),
  \<open>returned\<close> (the ids of the sequence producers whose \<^verbatim>\<open>finally\<close> block called the
  source iterator's \<^verbatim>\<open>return\<close>, one per call) and \<open>emitted\<close> (the chunks yielded so far)
  are observations added by the model; no step reads them.
\<close>

record encoder =
  counter :: nat
  buffer :: "entry list"
  control :: control
  registrations :: "nat list"
  returned :: "nat list"
  emitted :: "string list"

text \<open>
  \<^verbatim>\<open>const idx = ++counter\<close>. The counter is a natural number here; the double of the
  source counts exactly up to \<open>2 ^ 53\<close> registrations.
\<close>

definition registerAsyncIterable :: "gen \<Rightarrow> encoder \<Rightarrow> nat \<times> encoder" where
  "registerAsyncIterable callback st =
     (let idx = counter st + 1
      in (idx, st\<lparr>counter := idx,
                   buffer := buffer st @ [Entry idx callback False Pending],
                   registrations := registrations st @ [idx]\<rparr>))"

definition DevalueError :: val where
  "DevalueError = VObject ''DevalueError'' (VStr ''Cannot stringify arbitrary non-POJOs'')"

text \<open>The TypeError of calling \<^verbatim>\<open>v.catch\<close> on a thenable that has no such method.\<close>

definition NotAFunction :: val where
  "NotAFunction = VObject ''TypeError'' (VStr ''v.catch is not a function'')"

text \<open>
  Modelled from the spec: \<^verbatim>\<open>stringify\<close> (stringify.js) is not among the sources. It
  flattens the value depth first and left to right, asks the reducers at every node that
  is not plain data, writes the id a reducer returns as the placeholder, and throws on a
  value no reducer accepts. The Promise and AsyncIterable reducers are those of the source
  of \<^verbatim>\<open>recurse\<close>: each registers a producer. The generator of a Promise producer
  begins with \<^verbatim>\<open>v.catch(...)\<close>, before its \<^verbatim>\<open>try\<close>: on a thenable without \<^verbatim>\<open>catch\<close>
  the call throws, and the producer is registered with a generator that has thrown. What
  was registered before a throw stays registered.
\<close>

fun flatten :: "string list \<Rightarrow> val \<Rightarrow> encoder \<Rightarrow> (val + payload) \<times> encoder"
and flatten_list :: "string list \<Rightarrow> val list \<Rightarrow> encoder \<Rightarrow> (val + payload list) \<times> encoder"
where
  "flatten rs (VNum n) st = (Inr (PNum n), st)"
| "flatten rs (VStr s) st = (Inr (PStr s), st)"
| "flatten rs (VArr vs) st =
     (case flatten_list rs vs st of
        (Inl e, st') \<Rightarrow> (Inl e, st')
      | (Inr ps, st') \<Rightarrow> (Inr (PArr ps), st'))"
| "flatten rs (VObject tag v) st =
     (if tag \<in> set rs then
        (case flatten rs v st of
           (Inl e, st') \<Rightarrow> (Inl e, st')
         | (Inr p, st') \<Rightarrow> (Inr (PObject tag p), st'))
      else (Inl DevalueError, st))"
| "flatten rs (VPromise s) st =
     (case registerAsyncIterable (AwaitPromise s) st of
        (idx, st') \<Rightarrow> (Inr (PPromise idx), st'))"
| "flatten rs VThenable st =
     (case registerAsyncIterable (Throwing NotAFunction) st of
        (idx, st') \<Rightarrow> (Inr (PPromise idx), st'))"
| "flatten rs (VAsyncIterable xs fin) st =
     (case registerAsyncIterable (AwaitNext xs fin) st of
        (idx, st') \<Rightarrow> (Inr (PAsyncIterable idx), st'))"
| "flatten_list rs [] st = (Inr [], st)"
| "flatten_list rs (v # vs) st =
     (case flatten rs v st of
        (Inl e, st') \<Rightarrow> (Inl e, st')
      | (Inr p, st') \<Rightarrow>
          (case flatten_list rs vs st' of
             (Inl e, st'') \<Rightarrow> (Inl e, st'')
           | (Inr ps, st'') \<Rightarrow> (Inr (p # ps), st'')))"

definition recurse :: "textcodec \<Rightarrow> options \<Rightarrow> val \<Rightarrow> encoder \<Rightarrow> (val + string) \<times> encoder" where
  "recurse tc opts v st =
     (case flatten (revivers opts) v st of
        (Inl e, st') \<Rightarrow> (Inl e, st')
      | (Inr p, st') \<Rightarrow> (Inr (render tc p), st'))"

definition safeCause :: "textcodec \<Rightarrow> options \<Rightarrow> val \<Rightarrow> encoder \<Rightarrow> (val + string) \<times> encoder" where
  "safeCause tc opts cause st =
     (case recurse tc opts cause st of
        (Inr s, st') \<Rightarrow> (Inr s, st')
      | (Inl err, st') \<Rightarrow>
          (case coerceError opts of
             None \<Rightarrow> (Inl err, st')
           | Some coerce \<Rightarrow>
               (case coerce cause of
                  Inl thrown \<Rightarrow> (Inl thrown, st')
                | Inr cause' \<Rightarrow> recurse tc opts cause' st')))"

section \<open>The producer generators\<close>

text \<open>
  \<open>finally_return\<close> is \<^verbatim>\<open>await iterator.return?.()\<close> in the \<^verbatim>\<open>finally\<close> block of the
  AsyncIterable producer; the source iterators of the model all have a \<^verbatim>\<open>return\<close> method.
\<close>

definition finally_return :: "nat \<Rightarrow> encoder \<Rightarrow> encoder" where
  "finally_return idx st = st\<lparr>returned := returned st @ [idx]\<rparr>"

text \<open>
  The Promise producer, resumed at \<^verbatim>\<open>await v\<close> once \<open>v\<close> has settled (the call
  \<^verbatim>\<open>v.catch(...)\<close> before it has returned: \<open>v\<close> is a \<open>VPromise\<close>). In \<open>JsonArray\<close> the
  frame is yielded; in \<open>Delimited\<close> it is the generator's return value. A value whose
  encoding throws is caught by the \<^verbatim>\<open>catch\<close> of the generator, like a rejection.
\<close>

definition promise_frame :: "framing \<Rightarrow> frame \<Rightarrow> gen \<times> next_promise" where
  "promise_frame f fr =
     (case f of
        JsonArray \<Rightarrow> (AtFinalYield KPromise, Resolved (IterResult (Some fr) False))
      | Delimited \<Rightarrow> (Completed, Resolved (IterResult (Some fr) True)))"

definition promise_catch ::
  "framing \<Rightarrow> textcodec \<Rightarrow> options \<Rightarrow> nat \<Rightarrow> val \<Rightarrow> encoder \<Rightarrow> (gen \<times> next_promise) \<times> encoder" where
  "promise_catch f tc opts idx cause st =
     (case safeCause tc opts cause st of
        (Inr t, st') \<Rightarrow> (promise_frame f (idx, PROMISE_STATUS_REJECTED, t), st')
      | (Inl e, st') \<Rightarrow> ((Completed, Rejected e), st'))"

definition promise_producer ::
  "framing \<Rightarrow> textcodec \<Rightarrow> options \<Rightarrow> nat \<Rightarrow> settle \<Rightarrow> encoder \<Rightarrow> (gen \<times> next_promise) \<times> encoder" where
  "promise_producer f tc opts idx v st =
     (case v of
        Fulfill next \<Rightarrow>
          (case recurse tc opts next st of
             (Inr t, st') \<Rightarrow> (promise_frame f (idx, PROMISE_STATUS_FULFILLED, t), st')
           | (Inl cause, st') \<Rightarrow> promise_catch f tc opts idx cause st')
      | Reject cause \<Rightarrow> promise_catch f tc opts idx cause st)"

text \<open>
  The AsyncIterable producer, resumed at \<^verbatim>\<open>await iterator.next()\<close> once the source has
  answered. In \<open>Delimited\<close> the RETURN and ERROR frames are return values, so the
  \<^verbatim>\<open>finally\<close> block runs before the frame is handed out.
\<close>

definition seq_final :: "framing \<Rightarrow> nat \<Rightarrow> frame \<Rightarrow> encoder \<Rightarrow> (gen \<times> next_promise) \<times> encoder" where
  "seq_final f idx fr st =
     (case f of
        JsonArray \<Rightarrow> ((AtFinalYield KSeq, Resolved (IterResult (Some fr) False)), st)
      | Delimited \<Rightarrow> ((Completed, Resolved (IterResult (Some fr) True)), finally_return idx st))"

definition seq_catch ::
  "framing \<Rightarrow> textcodec \<Rightarrow> options \<Rightarrow> nat \<Rightarrow> val \<Rightarrow> encoder \<Rightarrow> (gen \<times> next_promise) \<times> encoder" where
  "seq_catch f tc opts idx cause st =
     (case safeCause tc opts cause st of
        (Inr t, st') \<Rightarrow> seq_final f idx (idx, ASYNC_ITERABLE_STATUS_ERROR f, t) st'
      | (Inl e, st') \<Rightarrow> ((Completed, Rejected e), finally_return idx st'))"

definition seq_producer ::
  "framing \<Rightarrow> textcodec \<Rightarrow> options \<Rightarrow> nat \<Rightarrow> val list \<Rightarrow> finish \<Rightarrow> encoder \<Rightarrow>
     (gen \<times> next_promise) \<times> encoder" where
  "seq_producer f tc opts idx xs fin st =
     (case xs of
        x # rest \<Rightarrow>
          (case recurse tc opts x st of
             (Inr t, st') \<Rightarrow>
               ((AtYield rest fin,
                 Resolved (IterResult (Some (idx, ASYNC_ITERABLE_STATUS_YIELD, t)) False)), st')
           | (Inl cause, st') \<Rightarrow> seq_catch f tc opts idx cause st')
      | [] \<Rightarrow>
          (case fin of
             Return r \<Rightarrow>
               (case recurse tc opts r st of
                  (Inr t, st') \<Rightarrow> seq_final f idx (idx, ASYNC_ITERABLE_STATUS_RETURN f, t) st'
                | (Inl cause, st') \<Rightarrow> seq_catch f tc opts idx cause st')
           | Throw cause \<Rightarrow> seq_catch f tc opts idx cause st))"

text \<open>A producer whose awaited source answers runs to its next suspension.\<close>

definition resume ::
  "framing \<Rightarrow> textcodec \<Rightarrow> options \<Rightarrow> nat \<Rightarrow> gen \<Rightarrow> encoder \<Rightarrow> (gen \<times> next_promise) \<times> encoder" where
  "resume f tc opts idx g st =
     (case g of
        AwaitPromise v \<Rightarrow> promise_producer f tc opts idx v st
      | Throwing x \<Rightarrow> ((Completed, Rejected x), st)
      | AwaitNext xs fin \<Rightarrow> seq_producer f tc opts idx xs fin st
      | _ \<Rightarrow> ((g, Pending), st))"

text \<open>
  \<^verbatim>\<open>iterator.next()\<close> on a producer suspended at a \<^verbatim>\<open>yield\<close>: the loop of the sequence
  producer awaits the source again; after a final frame the generator leaves its
  \<^verbatim>\<open>try\<close> and, for a sequence, runs the \<^verbatim>\<open>finally\<close> block.
\<close>

definition gen_next :: "nat \<Rightarrow> gen \<Rightarrow> encoder \<Rightarrow> (gen \<times> next_promise) \<times> encoder" where
  "gen_next idx g st =
     (case g of
        AtYield rest fin \<Rightarrow> ((AwaitNext rest fin, Pending), st)
      | AtFinalYield KPromise \<Rightarrow> ((Completed, Resolved (IterResult None True)), st)
      | AtFinalYield KSeq \<Rightarrow> ((Completed, Resolved (IterResult None True)), finally_return idx st)
      | Completed \<Rightarrow> ((Completed, Resolved (IterResult None True)), st)
      | _ \<Rightarrow> ((g, Pending), st))"

text \<open>
  \<^verbatim>\<open>iterator.return()\<close> on a producer. Suspended at a \<^verbatim>\<open>yield\<close>, the generator
  completes through its \<^verbatim>\<open>finally\<close> block. While its \<^verbatim>\<open>next()\<close> is still running, an
  async generator queues the request: it takes effect at the next \<^verbatim>\<open>yield\<close>. A generator
  that has thrown has finished.
\<close>

definition gen_return :: "entry \<Rightarrow> encoder \<Rightarrow> entry \<times> encoder" where
  "gen_return e st =
     (case iterator e of
        AtYield rest fin \<Rightarrow>
          (Entry (eid e) Completed False (nextPromise e), finally_return (eid e) st)
      | AtFinalYield KSeq \<Rightarrow>
          (Entry (eid e) Completed False (nextPromise e), finally_return (eid e) st)
      | AtFinalYield KPromise \<Rightarrow> (Entry (eid e) Completed False (nextPromise e), st)
      | Completed \<Rightarrow> (Entry (eid e) Completed False (nextPromise e), st)
      | Throwing x \<Rightarrow> (Entry (eid e) Completed False (Rejected x), st)
      | _ \<Rightarrow> (Entry (eid e) (iterator e) True (nextPromise e), st))"

fun return_all :: "entry list \<Rightarrow> encoder \<Rightarrow> entry list \<times> encoder" where
  "return_all [] st = ([], st)"
| "return_all (e # es) st =
     (case gen_return e st of
        (e', st') \<Rightarrow> (case return_all es st' of (es', st'') \<Rightarrow> (e' # es', st'')))"

text \<open>
  What the multiplexer yields for an iterator result: in \<open>JsonArray\<close> the value of a
  result that is not done; in \<open>Delimited\<close> the value of every result.
\<close>

definition yielded :: "framing \<Rightarrow> iter_result \<Rightarrow> frame list" where
  "yielded f r =
     (case f of
        JsonArray \<Rightarrow>
          (if res_done r then [] else (case res_value r of None \<Rightarrow> [] | Some fr \<Rightarrow> [fr]))
      | Delimited \<Rightarrow> (case res_value r of None \<Rightarrow> [] | Some fr \<Rightarrow> [fr]))"

text \<open>
  \<open>awaiting g\<close>: the producer is suspended at an \<^verbatim>\<open>await\<close> (or has thrown, and its
  rejection is under way). \<open>rank\<close> measures how far a producer and its pending \<^verbatim>\<open>next()\<close>
  are from the end of the producer.
\<close>

definition awaiting :: "gen \<Rightarrow> bool" where
  "awaiting g =
     (case g of AwaitPromise s \<Rightarrow> True | Throwing x \<Rightarrow> True | AwaitNext xs fin \<Rightarrow> True
      | _ \<Rightarrow> False)"

definition rank :: "gen \<Rightarrow> next_promise \<Rightarrow> nat" where
  "rank g np =
     (case g of
        AwaitPromise s \<Rightarrow> 3
      | Throwing x \<Rightarrow> 3
      | AwaitNext xs fin \<Rightarrow> 3 + 3 * length xs
      | AtYield xs fin \<Rightarrow> 3 + 3 * length xs
      | AtFinalYield k \<Rightarrow> 1
      | Completed \<Rightarrow> 0) +
     (case np of
        Pending \<Rightarrow> 1
      | Resolved r \<Rightarrow> (if res_done r then 0 else 2)
      | Rejected e \<Rightarrow> 0)"

lemma resume_rank:
  "awaiting g \<Longrightarrow> resume f tc opts idx g st = ((g', np'), st') \<Longrightarrow> rank g' np' < rank g Pending"
  by (auto simp: awaiting_def rank_def resume_def promise_producer_def promise_catch_def
      promise_frame_def seq_producer_def seq_catch_def seq_final_def
      split: gen.splits settle.splits prod.splits sum.splits framing.splits list.splits
        finish.splits)

lemma gen_next_rank:
  "\<not> res_done r \<Longrightarrow> gen_next idx g st = ((g', np'), st') \<Longrightarrow>
   rank g' np' < rank g (Resolved r)"
  by (auto simp: rank_def gen_next_def split: gen.splits kind.splits)

text \<open>
  One producer over its whole life, driven as the loop of the encoder drives it: a pending
  \<^verbatim>\<open>next()\<close> is awaited until the source has answered and the producer has run on; a
  result is yielded as the variant yields it; \<^verbatim>\<open>next()\<close> is called again unless the
  result was done; a rejected \<^verbatim>\<open>next()\<close> ends the encoder. The answer is the frames
  handed to the multiplexer, in order, with the control point of the generator and its last
  \<^verbatim>\<open>next()\<close> at the end.
\<close>

function producer_run ::
  "framing \<Rightarrow> textcodec \<Rightarrow> options \<Rightarrow> nat \<Rightarrow> gen \<Rightarrow> next_promise \<Rightarrow> encoder \<Rightarrow>
     (frame list \<times> gen \<times> next_promise) \<times> encoder" where
  "producer_run f tc opts idx g np st =
     (case np of
        Pending \<Rightarrow>
          (if awaiting g then
             (case resume f tc opts idx g st of
                ((g', np'), st') \<Rightarrow> producer_run f tc opts idx g' np' st')
           else (([], g, np), st))
      | Resolved r \<Rightarrow>
          (if res_done r then ((yielded f r, g, np), st)
           else
             (case gen_next idx g st of
                ((g', np'), st') \<Rightarrow>
                  (case producer_run f tc opts idx g' np' st' of
                     ((frs, stop), st'') \<Rightarrow> ((yielded f r @ frs, stop), st''))))
      | Rejected e \<Rightarrow> (([], g, np), st))"
  by pat_completeness auto
termination
proof (relation "measure (\<lambda>(f, tc, opts, idx, g, np, st). rank g np)", goal_cases)
  case 1
  show ?case by simp
next
  case (2 f tc opts idx g np st x y g' np')
  from 2 have "resume f tc opts idx g st = ((g', np'), y)" by simp
  with 2 show ?case by (simp add: resume_rank)
next
  case (3 f tc opts idx g np st r x y g' np')
  from 3 have "gen_next idx g st = ((g', np'), y)" by simp
  with 3 show ?case by (simp add: gen_next_rank)
qed

declare producer_run.simps [simp del]

text \<open>The frames of a producer that starts with its first \<^verbatim>\<open>next()\<close> pending.\<close>

definition producer_frames ::
  "framing \<Rightarrow> textcodec \<Rightarrow> options \<Rightarrow> nat \<Rightarrow> gen \<Rightarrow> encoder \<Rightarrow> frame list \<times> encoder" where
  "producer_frames f tc opts idx g st =
     (case producer_run f tc opts idx g Pending st of ((frs, stop), st') \<Rightarrow> (frs, st'))"

section \<open>The encoder: \<^verbatim>\<open>stringifyAsync\<close> and \<^verbatim>\<open>stringifyAsyncIterable\<close>\<close>

definition digit :: "nat \<Rightarrow> char" where
  "digit d = ''0123456789'' ! d"

fun dec :: "nat \<Rightarrow> string" where
  "dec n = (if n < 10 then [digit n] else dec (n div 10) @ [digit (n mod 10)])"

declare dec.simps [simp del]

definition chunk_of :: "framing \<Rightarrow> frame \<Rightarrow> string" where
  "chunk_of f fr =
     (case fr of (idx, status, t) \<Rightarrow>
        (case f of
           JsonArray \<Rightarrow> ''['' @ dec idx @ '','' @ dec status @ '','' @ t @ '']'' @ [CHR 0x0A]
         | Delimited \<Rightarrow> dec idx @ '':'' @ dec status @ '':'' @ t))"

definition root_chunk :: "framing \<Rightarrow> string \<Rightarrow> string" where
  "root_chunk f t = (case f of JsonArray \<Rightarrow> t @ [CHR 0x0A] | Delimited \<Rightarrow> t)"

text \<open>
  The \<^verbatim>\<open>finally\<close> block: \<^verbatim>\<open>return()\<close> is called on the iterator of every entry of
  \<^verbatim>\<open>buffer\<close>, and the generator goes on (to finish, or to rethrow) once all of these calls
  have settled, which is when none of them is queued any more.
\<close>

definition closed :: "encoder \<Rightarrow> encoder" where
  "closed st =
     (case control st of
        Closing c \<Rightarrow>
          (if list_all (\<lambda>e. \<not> return_queued e) (buffer st)
           then st\<lparr>control := (case c of None \<Rightarrow> Finished | Some x \<Rightarrow> Failed x)\<rparr>
           else st)
      | _ \<Rightarrow> st)"

definition finally_block :: "val option \<Rightarrow> encoder \<Rightarrow> encoder" where
  "finally_block c st =
     (case return_all (buffer st) st of
        (es, st') \<Rightarrow> closed (st'\<lparr>buffer := es, control := Closing c\<rparr>))"

definition loop_head :: "encoder \<Rightarrow> encoder" where
  "loop_head st = (if buffer st = [] then finally_block None st else st\<lparr>control := Racing\<rparr>)"

definition rearm :: "entry \<Rightarrow> encoder \<Rightarrow> encoder" where
  "rearm e st =
     (case gen_next (eid e) (iterator e) st of
        ((g, np), st') \<Rightarrow> st'\<lparr>buffer := buffer st' @ [Entry (eid e) g (return_queued e) np]\<rparr>)"

definition delete_entry :: "entry \<Rightarrow> entry list \<Rightarrow> entry list" where
  "delete_entry e es = filter (\<lambda>x. eid x \<noteq> eid e) es"

text \<open>
  What moves the encoder:
  \<^item> \<open>Next\<close>: the consumer pulls (\<^verbatim>\<open>next()\<close> on the chunk sequence);
  \<^item> \<open>Settle i\<close>: the source awaited by producer \<open>i\<close> answers, and the producer runs to its
    next suspension;
  \<^item> \<open>Race i\<close>: \<^verbatim>\<open>Promise.race\<close> answers with the entry of producer \<open>i\<close>, whose
    \<^verbatim>\<open>nextPromise\<close> has settled;
  \<^item> \<open>Abandon\<close>: the consumer calls \<^verbatim>\<open>return()\<close> on the chunk sequence, which takes
    effect where the encoder is suspended at a \<^verbatim>\<open>yield\<close>.
  A step that is not possible in a state gives \<open>None\<close>. When several entries have
  settled, \<open>Race\<close> may answer with any of them: the steps allow every order the race
  can take, and more. Entries are told apart by their ids where the source tells them apart
  by object identity.
\<close>

datatype action = Next | Settle nat | Race nat | Abandon

definition step_next :: "framing \<Rightarrow> textcodec \<Rightarrow> options \<Rightarrow> encoder \<Rightarrow> encoder option" where
  "step_next f tc opts st =
     (case control st of
        NotStarted v \<Rightarrow>
          (case recurse tc opts v st of
             (Inr t, st') \<Rightarrow>
               Some (st'\<lparr>emitted := emitted st' @ [root_chunk f t], control := AtRootYield\<rparr>)
           | (Inl e, st') \<Rightarrow> Some (finally_block (Some e) st'))
      | AtRootYield \<Rightarrow> Some (loop_head st)
      | AtChunkYield e \<Rightarrow>
          (case f of
             JsonArray \<Rightarrow> Some (loop_head (rearm e st))
           | Delimited \<Rightarrow>
               (let st' = st\<lparr>buffer := delete_entry e (buffer st)\<rparr>
                in case nextPromise e of
                     Resolved (IterResult v False) \<Rightarrow> Some (loop_head (rearm e st'))
                   | _ \<Rightarrow> Some (loop_head st')))
      | _ \<Rightarrow> None)"

definition step_settle ::
  "framing \<Rightarrow> textcodec \<Rightarrow> options \<Rightarrow> nat \<Rightarrow> encoder \<Rightarrow> encoder option" where
  "step_settle f tc opts i st =
     (case find (\<lambda>e. eid e = i) (buffer st) of
        None \<Rightarrow> None
      | Some e \<Rightarrow>
          (if nextPromise e \<noteq> Pending then None
           else
             (case resume f tc opts i (iterator e) st of
                ((g, np), st') \<Rightarrow>
                  (case (if return_queued e then gen_return (Entry i g False np) st'
                         else (Entry i g False np, st')) of
                     (e', st'') \<Rightarrow>
                       Some (closed (st''\<lparr>buffer :=
                         map (\<lambda>x. if eid x = i then e' else x) (buffer st'')\<rparr>))))))"

definition step_race :: "framing \<Rightarrow> nat \<Rightarrow> encoder \<Rightarrow> encoder option" where
  "step_race f i st =
     (if control st \<noteq> Racing then None
      else
        (case find (\<lambda>e. eid e = i) (buffer st) of
           None \<Rightarrow> None
         | Some e \<Rightarrow>
             (case nextPromise e of
                Pending \<Rightarrow> None
              | Rejected x \<Rightarrow> Some (finally_block (Some x) st)
              | Resolved res \<Rightarrow>
                  (case f of
                     JsonArray \<Rightarrow>
                       (let st' = st\<lparr>buffer := delete_entry e (buffer st)\<rparr>
                        in if \<not> res_done res then
                             (case res_value res of
                                Some fr \<Rightarrow>
                                  Some (st'\<lparr>emitted := emitted st' @ [chunk_of f fr],
                                           control := AtChunkYield e\<rparr>)
                              | None \<Rightarrow>
                                  Some (finally_block (Some (VObject ''TypeError'' (VStr ''join''))) st'))
                           else Some (loop_head st'))
                   | Delimited \<Rightarrow>
                       Some (st\<lparr>emitted := emitted st @
                                  [case res_value res of Some fr \<Rightarrow> chunk_of f fr
                                   | None \<Rightarrow> ''undefined''],
                                control := AtChunkYield e\<rparr>)))))"

definition step_abandon :: "encoder \<Rightarrow> encoder option" where
  "step_abandon st =
     (case control st of
        NotStarted v \<Rightarrow> Some (st\<lparr>control := Finished\<rparr>)
      | AtRootYield \<Rightarrow> Some (finally_block None st)
      | AtChunkYield e \<Rightarrow> Some (finally_block None st)
      | _ \<Rightarrow> None)"

definition step :: "framing \<Rightarrow> textcodec \<Rightarrow> options \<Rightarrow> action \<Rightarrow> encoder \<Rightarrow> encoder option" where
  "step f tc opts a st =
     (case a of
        Next \<Rightarrow> step_next f tc opts st
      | Settle i \<Rightarrow> step_settle f tc opts i st
      | Race i \<Rightarrow> step_race f i st
      | Abandon \<Rightarrow> step_abandon st)"

fun run :: "framing \<Rightarrow> textcodec \<Rightarrow> options \<Rightarrow> action list \<Rightarrow> encoder \<Rightarrow> encoder option" where
  "run f tc opts [] st = Some st"
| "run f tc opts (a # as) st =
     (case step f tc opts a st of None \<Rightarrow> None | Some st' \<Rightarrow> run f tc opts as st')"

text \<open>The call \<^verbatim>\<open>stringifyAsync(value, options)\<close>: nothing runs before the first pull.\<close>

definition stringifyAsync :: "val \<Rightarrow> encoder" where
  "stringifyAsync v =
     \<lparr>counter = 0, buffer = [], control = NotStarted v, registrations = [],
      returned = [], emitted = []\<rparr>"

section \<open>The decoder: sinks and revived values\<close>

text \<open>
  A decoded value holds, where a Promise or an AsyncIterable stood, the handle of the
  object the reviver made (its position in \<open>revived\<close>).
\<close>

datatype dval =
    DNum int
  | DStr string
  | DArr "dval list"
  | DObject string dval
  | DPromise nat
  | DAsyncIterable nat

text \<open>
  The numbers the decoder reads as ids and statuses: integers, and \<^verbatim>\<open>Infinity\<close>, which
  \<^verbatim>\<open>parseInt\<close> answers for a decimal text beyond the range of a double.
\<close>

datatype number = Number int | Infinity

text \<open>
  The \<^verbatim>\<open>Error\<close> objects the decoder meets, by their origin: \<^verbatim>\<open>JSON.parse\<close>, array
  destructuring, the synchronous decoder, \<^verbatim>\<open>assertNumber\<close>, \<^verbatim>\<open>asNumberOrThrow\<close>, the two
  status switches, the two errors the pump makes itself
  (\<^verbatim>\<open>new Error("Stream interrupted: malformed stream")\<close> and
  \<^verbatim>\<open>new Error("Stream interrupted", { cause })\<close>), and the TypeError of
  \<^verbatim>\<open>controller.enqueue\<close> on a stream that is closed.
\<close>

datatype error =
    SyntaxError
  | TypeError
  | InvalidInput
  | UnknownType string
  | ExpectedNumber string
  | ExpectedPositiveNumber string
  | UnknownPromiseStatus number
  | UnknownStatus number
  | StreamInterruptedMalformed
  | StreamInterrupted error
  | InvalidState

datatype thrown = ThrownValue dval | ThrownError error

text \<open>What a sink receives: \<^verbatim>\<open>[status, value]\<close> or an \<^verbatim>\<open>Error\<close>.\<close>

datatype msg = Frame number dval | Err error

text \<open>
  A revived Promise waits on its sink, or has settled. In \<open>Delimited\<close> it passes through
  \<open>PClosing s\<close> on the way: the reviver has what it settles with and is in its
  \<^verbatim>\<open>finally\<close> block, at \<^verbatim>\<open>await reader.cancel()\<close>; the stream is closed, the id is still
  in \<^verbatim>\<open>enqueueMap\<close>, and the Promise settles as \<open>s\<close> when the block has run.
\<close>

datatype promise_state = PWaiting | PClosing promise_state | PFulfilled dval | PRejected thrown

datatype pull_result = Yielded dval | Done "dval option" | Threw thrown

text \<open>
  The generator the AsyncIterable reviver returns: not yet started (its body, and with it
  \<^verbatim>\<open>registerAsync\<close>, runs at the first \<^verbatim>\<open>next()\<close>), suspended at its \<^verbatim>\<open>yield\<close>, at
  \<^verbatim>\<open>await reader.read()\<close> for a pull of the consumer, in its \<^verbatim>\<open>finally\<close> block at
  \<^verbatim>\<open>await reader.cancel()\<close> with the answer the pull is to have (\<open>Delimited\<close> only), or
  finished.
\<close>

datatype iter_state = IterNew | IterIdle | IterReading | IterClosing pull_result | IterEnded

text \<open>
  A revived object with the producer id it was revived for: a Promise and its state, or
  an AsyncIterable with the state of its generator, the queue of its stream, and the answers
  its consumer has had so far.
\<close>

datatype revived =
    RevPromise nat promise_state
  | RevIterable nat iter_state "msg list" "pull_result list"

text \<open>
  \<open>enqueueMap\<close> is the \<^verbatim>\<open>Map\<close> of the source, from producer id to the sink (the handle of
  the revived object whose stream the stored closure enqueues to). \<open>pumping\<close> tells whether
  the background pump is still running.
\<close>

record decoder =
  enqueueMap :: "(nat \<times> nat) list"
  revived :: "revived list"
  pumping :: bool

definition em_set :: "nat \<Rightarrow> nat \<Rightarrow> (nat \<times> nat) list \<Rightarrow> (nat \<times> nat) list" where
  "em_set k h m =
     (if k \<in> fst ` set m then map (\<lambda>(k', h'). if k' = k then (k, h) else (k', h')) m
      else m @ [(k, h)])"

definition em_delete :: "nat \<Rightarrow> (nat \<times> nat) list \<Rightarrow> (nat \<times> nat) list" where
  "em_delete k m = filter (\<lambda>(k', h'). k' \<noteq> k) m"

definition em_get :: "number \<Rightarrow> (nat \<times> nat) list \<Rightarrow> nat option" where
  "em_get k m =
     (case k of
        Number i \<Rightarrow> (if i < 0 then None else map_of m (nat i))
      | Infinity \<Rightarrow> None)"

definition registerAsync :: "nat \<Rightarrow> nat \<Rightarrow> decoder \<Rightarrow> decoder" where
  "registerAsync idx h st = st\<lparr>enqueueMap := em_set idx h (enqueueMap st)\<rparr>"

text \<open>
  Modelled from the spec: \<^verbatim>\<open>unflatten\<close> and \<^verbatim>\<open>parse\<close> (parse.js) are not among the
  sources. \<^verbatim>\<open>unflatten\<close> rebuilds the value depth first and left to right, hands the id of
  every placeholder to the reviver of its tag, and throws on a tag without a reviver, on
  \<^verbatim>\<open>undefined\<close> and on a parsed value that is no flattened value; \<^verbatim>\<open>parse\<close> is
  \<^verbatim>\<open>JSON.parse\<close> followed by \<^verbatim>\<open>unflatten\<close>. The two
  revivers are those of the source of \<^verbatim>\<open>recurse\<close>: the Promise reviver is an async
  function, so it registers its sink when it is called; the AsyncIterable reviver is an
  async generator function, so calling it only makes the generator.
\<close>

fun unflatten :: "string list \<Rightarrow> payload \<Rightarrow> decoder \<Rightarrow> (error + dval) \<times> decoder"
and unflatten_list :: "string list \<Rightarrow> payload list \<Rightarrow> decoder \<Rightarrow> (error + dval list) \<times> decoder"
where
  "unflatten rv (PNum n) st = (Inr (DNum n), st)"
| "unflatten rv (PStr s) st = (Inr (DStr s), st)"
| "unflatten rv (PArr ps) st =
     (case unflatten_list rv ps st of
        (Inl e, st') \<Rightarrow> (Inl e, st')
      | (Inr vs, st') \<Rightarrow> (Inr (DArr vs), st'))"
| "unflatten rv (PObject tag p) st =
     (if tag \<in> set rv then
        (case unflatten rv p st of
           (Inl e, st') \<Rightarrow> (Inl e, st')
         | (Inr v, st') \<Rightarrow> (Inr (DObject tag v), st'))
      else (Inl (UnknownType tag), st))"
| "unflatten rv (PPromise idx) st =
     (let h = length (revived st)
      in (Inr (DPromise h),
          registerAsync idx h (st\<lparr>revived := revived st @ [RevPromise idx PWaiting]\<rparr>)))"
| "unflatten rv (PAsyncIterable idx) st =
     (let h = length (revived st)
      in (Inr (DAsyncIterable h), st\<lparr>revived := revived st @ [RevIterable idx IterNew [] []]\<rparr>))"
| "unflatten rv PInvalid st = (Inl InvalidInput, st)"
| "unflatten_list rv [] st = (Inr [], st)"
| "unflatten_list rv (p # ps) st =
     (case unflatten rv p st of
        (Inl e, st') \<Rightarrow> (Inl e, st')
      | (Inr v, st') \<Rightarrow>
          (case unflatten_list rv ps st' of
             (Inl e, st'') \<Rightarrow> (Inl e, st'')
           | (Inr vs, st'') \<Rightarrow> (Inr (v # vs), st'')))"

text \<open>\<^verbatim>\<open>JSON.parse\<close> of a chunk that may be \<^verbatim>\<open>undefined\<close>, which is not JSON.\<close>

definition JSON_parse_js :: "textcodec \<Rightarrow> string option \<Rightarrow> error + payload" where
  "JSON_parse_js tc x =
     (case x of
        None \<Rightarrow> Inl SyntaxError
      | Some t \<Rightarrow> (case JSON_parse tc t of None \<Rightarrow> Inl SyntaxError | Some p \<Rightarrow> Inr p))"

text \<open>\<^verbatim>\<open>recurse\<close> of \<^verbatim>\<open>parseAsync\<close>: \<^verbatim>\<open>unflatten(value, ...)\<close> of a parsed value.\<close>

definition recurse_json :: "string list \<Rightarrow> payload option \<Rightarrow> decoder \<Rightarrow> (error + dval) \<times> decoder" where
  "recurse_json rv x st =
     (case x of None \<Rightarrow> (Inl InvalidInput, st) | Some p \<Rightarrow> unflatten rv p st)"

text \<open>\<^verbatim>\<open>recurse\<close> of \<^verbatim>\<open>parseAsyncIterable\<close>: \<^verbatim>\<open>parse(value, ...)\<close> of a text.\<close>

definition recurse_text ::
  "textcodec \<Rightarrow> string list \<Rightarrow> string option \<Rightarrow> decoder \<Rightarrow> (error + dval) \<times> decoder" where
  "recurse_text tc rv x st =
     (case JSON_parse_js tc x of Inl e \<Rightarrow> (Inl e, st) | Inr p \<Rightarrow> unflatten rv p st)"

text \<open>
  The body of the Promise reviver after \<^verbatim>\<open>await reader.read()\<close>, and one turn of the
  loop of the AsyncIterable reviver, up to the \<^verbatim>\<open>finally\<close> block.
\<close>

definition promise_outcome :: "framing \<Rightarrow> msg \<Rightarrow> promise_state" where
  "promise_outcome f m =
     (case m of
        Err e \<Rightarrow> PRejected (ThrownError e)
      | Frame status v \<Rightarrow>
          (case f of
             JsonArray \<Rightarrow>
               (if status = Number (int PROMISE_STATUS_FULFILLED) then PFulfilled v
                else if status = Number (int PROMISE_STATUS_REJECTED) then PRejected (ThrownValue v)
                else PRejected (ThrownError (UnknownPromiseStatus status)))
           | Delimited \<Rightarrow>
               (if status = Number (int PROMISE_STATUS_FULFILLED) then PFulfilled v
                else PRejected (ThrownValue v))))"

definition iter_outcome :: "framing \<Rightarrow> msg \<Rightarrow> iter_state \<times> pull_result" where
  "iter_outcome f m =
     (case m of
        Err e \<Rightarrow> (IterEnded, Threw (ThrownError e))
      | Frame status v \<Rightarrow>
          (if status = Number (int ASYNC_ITERABLE_STATUS_YIELD) then (IterIdle, Yielded v)
           else if status = Number (int (ASYNC_ITERABLE_STATUS_RETURN f))
             then (IterEnded, Done (Some v))
           else if status = Number (int (ASYNC_ITERABLE_STATUS_ERROR f))
             then (IterEnded, Threw (ThrownValue v))
           else (IterEnded, Threw (ThrownError (UnknownStatus status)))))"

text \<open>
  The generator of the AsyncIterable reviver goes on with what it has read. At its end
  the \<^verbatim>\<open>finally\<close> block runs: in \<open>JsonArray\<close> \<^verbatim>\<open>dispose()\<close> deletes the id from
  \<^verbatim>\<open>enqueueMap\<close> at once; in \<open>Delimited\<close> the block closes the stream and waits at
  \<^verbatim>\<open>await reader.cancel()\<close>, with the id still in \<^verbatim>\<open>enqueueMap\<close>.
\<close>

definition iter_read ::
  "framing \<Rightarrow> nat \<Rightarrow> nat \<Rightarrow> msg \<Rightarrow> msg list \<Rightarrow> pull_result list \<Rightarrow> decoder \<Rightarrow> decoder" where
  "iter_read f h idx m q rs st =
     (case iter_outcome f m of
        (s, r) \<Rightarrow>
          (if s = IterEnded then
             (case f of
                JsonArray \<Rightarrow>
                  st\<lparr>revived := (revived st)[h := RevIterable idx IterEnded q (rs @ [r])],
                     enqueueMap := em_delete idx (enqueueMap st)\<rparr>
              | Delimited \<Rightarrow>
                  st\<lparr>revived := (revived st)[h := RevIterable idx (IterClosing r) q rs]\<rparr>)
           else st\<lparr>revived := (revived st)[h := RevIterable idx s q (rs @ [r])]\<rparr>))"

text \<open>
  \<^verbatim>\<open>enqueue(v)\<close> on the sink \<open>h\<close>, with the run of the reviver that follows it. On a
  stream that is closed \<^verbatim>\<open>controller.enqueue\<close> throws a TypeError (\<open>Inl\<close>). A handle
  is in \<^verbatim>\<open>enqueueMap\<close> only when its object has made its stream; for any other handle
  the answer is the same.
\<close>

definition enqueue :: "framing \<Rightarrow> nat \<Rightarrow> msg \<Rightarrow> decoder \<Rightarrow> error + decoder" where
  "enqueue f h m st =
     (if h < length (revived st) then
        (case revived st ! h of
           RevPromise idx PWaiting \<Rightarrow>
             (case f of
                JsonArray \<Rightarrow>
                  Inr (st\<lparr>revived := (revived st)[h := RevPromise idx (promise_outcome f m)],
                          enqueueMap := em_delete idx (enqueueMap st)\<rparr>)
              | Delimited \<Rightarrow>
                  Inr (st\<lparr>revived :=
                          (revived st)[h := RevPromise idx (PClosing (promise_outcome f m))]\<rparr>))
         | RevPromise idx s \<Rightarrow> Inl InvalidState
         | RevIterable idx IterReading q rs \<Rightarrow> Inr (iter_read f h idx m q rs st)
         | RevIterable idx IterIdle q rs \<Rightarrow>
             Inr (st\<lparr>revived := (revived st)[h := RevIterable idx IterIdle (q @ [m]) rs]\<rparr>)
         | RevIterable idx s q rs \<Rightarrow> Inl InvalidState)
      else Inl InvalidState)"

text \<open>
  \<^verbatim>\<open>for (const [_, enqueue] of enqueueMap) enqueue(e)\<close>: the sinks are served in the order
  of the \<^verbatim>\<open>Map\<close>, and a throw of \<^verbatim>\<open>enqueue\<close> ends the loop.
\<close>

fun enqueue_each :: "framing \<Rightarrow> msg \<Rightarrow> nat list \<Rightarrow> decoder \<Rightarrow> (error + unit) \<times> decoder" where
  "enqueue_each f m [] st = (Inr (), st)"
| "enqueue_each f m (h # hs) st =
     (case enqueue f h m st of
        Inl e \<Rightarrow> (Inl e, st)
      | Inr st' \<Rightarrow> enqueue_each f m hs st')"

definition enqueue_all :: "framing \<Rightarrow> error \<Rightarrow> decoder \<Rightarrow> (error + unit) \<times> decoder" where
  "enqueue_all f e st = enqueue_each f (Err e) (map snd (enqueueMap st)) st"

text \<open>
  The \<^verbatim>\<open>finally\<close> block of a reviver of \<open>Delimited\<close> goes on after
  \<^verbatim>\<open>await reader.cancel()\<close>: \<^verbatim>\<open>enqueueMap.delete(idx)\<close>, and the reviver ends.
\<close>

definition cancelled :: "nat \<Rightarrow> decoder \<Rightarrow> decoder option" where
  "cancelled h st =
     (if h < length (revived st) then
        (case revived st ! h of
           RevPromise idx (PClosing s) \<Rightarrow>
             Some (st\<lparr>revived := (revived st)[h := RevPromise idx s],
                     enqueueMap := em_delete idx (enqueueMap st)\<rparr>)
         | RevIterable idx (IterClosing r) q rs \<Rightarrow>
             Some (st\<lparr>revived := (revived st)[h := RevIterable idx IterEnded q (rs @ [r])],
                     enqueueMap := em_delete idx (enqueueMap st)\<rparr>)
         | _ \<Rightarrow> None)
      else None)"

text \<open>The consumer calls \<^verbatim>\<open>next()\<close> on the decoded AsyncIterable \<open>h\<close>.\<close>

definition pull :: "framing \<Rightarrow> nat \<Rightarrow> decoder \<Rightarrow> decoder option" where
  "pull f h st =
     (if h < length (revived st) then
        (case revived st ! h of
           RevIterable idx IterNew q rs \<Rightarrow>
             Some (registerAsync idx h
                     (st\<lparr>revived := (revived st)[h := RevIterable idx IterReading [] rs]\<rparr>))
         | RevIterable idx IterIdle q rs \<Rightarrow>
             (case q of
                [] \<Rightarrow> Some (st\<lparr>revived := (revived st)[h := RevIterable idx IterReading [] rs]\<rparr>)
              | m # q' \<Rightarrow> Some (iter_read f h idx m q' rs st))
         | RevIterable idx IterEnded q rs \<Rightarrow>
             Some (st\<lparr>revived := (revived st)[h := RevIterable idx IterEnded q (rs @ [Done None])]\<rparr>)
         | _ \<Rightarrow> None)
      else None)"

section \<open>The decoder: the pump of \<^verbatim>\<open>parseAsync\<close> and of \<^verbatim>\<open>parseAsyncIterable\<close>\<close>

text \<open>\<^verbatim>\<open>const [idx, status, flattened] = JSON.parse(result.value)\<close>.\<close>

definition elements :: "payload \<Rightarrow> error + payload list" where
  "elements p =
     (case p of
        PArr xs \<Rightarrow> Inr xs
      | PStr s \<Rightarrow> Inr (map (\<lambda>c. PStr [c]) s)
      | _ \<Rightarrow> Inl TypeError)"

definition at :: "'a list \<Rightarrow> nat \<Rightarrow> 'a option" where
  "at xs i = (if i < length xs then Some (xs ! i) else None)"

definition typeof :: "payload option \<Rightarrow> string" where
  "typeof x =
     (case x of
        None \<Rightarrow> ''undefined''
      | Some (PNum n) \<Rightarrow> ''number''
      | Some (PStr s) \<Rightarrow> ''string''
      | Some p \<Rightarrow> ''object'')"

definition assertNumber :: "payload option \<Rightarrow> error + number" where
  "assertNumber x =
     (case x of Some (PNum n) \<Rightarrow> Inr (Number n) | _ \<Rightarrow> Inl (ExpectedNumber (typeof x)))"

text \<open>
  The string primitives of JavaScript the delimited pump uses: \<^verbatim>\<open>indexOf\<close> answers -1
  when the character is absent, and \<^verbatim>\<open>slice\<close> counts a negative bound from the end.
\<close>

fun indexOf :: "string \<Rightarrow> char \<Rightarrow> int" where
  "indexOf [] c = -1"
| "indexOf (x # xs) c =
     (if x = c then 0 else (let i = indexOf xs c in if i < 0 then -1 else i + 1))"

definition slice_bound :: "string \<Rightarrow> int \<Rightarrow> nat" where
  "slice_bound s i =
     (if i < 0 then nat (max (int (length s) + i) 0) else min (nat i) (length s))"

definition slice :: "string \<Rightarrow> int \<Rightarrow> int \<Rightarrow> string" where
  "slice s from to = take (slice_bound s to - slice_bound s from) (drop (slice_bound s from) s)"

definition slice_from :: "string \<Rightarrow> int \<Rightarrow> string" where
  "slice_from s from = drop (slice_bound s from) s"

definition is_digit :: "char \<Rightarrow> bool" where
  "is_digit c = (c \<in> set ''0123456789'')"

text \<open>
  The Number value of a natural number: the nearest double, a tie going to the even
  significand of 53 bits, and \<^verbatim>\<open>Infinity\<close> from \<open>2 ^ 1024 - 2 ^ 970\<close> on. Below
  \<open>2 ^ 53\<close> it is the number itself.
\<close>

fun bit_length :: "nat \<Rightarrow> nat" where
  "bit_length n = (if n = 0 then 0 else Suc (bit_length (n div 2)))"

declare bit_length.simps [simp del]

definition to_number :: "nat \<Rightarrow> number" where
  "to_number n =
     (let e = bit_length n - 53;
          q = n div 2 ^ e;
          r = n mod 2 ^ e;
          m = (if 2 ^ e < 2 * r \<or> (2 * r = 2 ^ e \<and> odd q) then q + 1 else q) * 2 ^ e
      in if 2 ^ 1024 \<le> m then Infinity else Number (int m))"

text \<open>
  \<^verbatim>\<open>parseInt(str, 10)\<close> on a text of decimal digits: the Number value of the integer the
  digits denote. (ECMAScript lets an implementation replace the digits after the twentieth
  by zeroes before it rounds; the model rounds the exact value.)
\<close>

definition parseInt :: "string \<Rightarrow> number" where
  "parseInt s = to_number (foldl (\<lambda>n c. 10 * n + (of_char c - 48)) 0 s)"

definition asNumberOrThrow :: "string \<Rightarrow> error + number" where
  "asNumberOrThrow str =
     (if str \<noteq> [] \<and> list_all is_digit str then Inr (parseInt str)
      else Inl (ExpectedPositiveNumber str))"

text \<open>
  \<^verbatim>\<open>enqueueMap.get(idx)?.([status, value])\<close>: no sink, no delivery; \<open>Inl\<close> is what
  \<^verbatim>\<open>enqueue\<close> throws.
\<close>

definition dispatch ::
  "framing \<Rightarrow> number \<Rightarrow> number \<Rightarrow> dval \<Rightarrow> decoder \<Rightarrow> (error + unit) \<times> decoder" where
  "dispatch f idx status v st =
     (case em_get idx (enqueueMap st) of
        None \<Rightarrow> (Inr (), st)
      | Some h \<Rightarrow>
          (case enqueue f h (Frame status v) st of
             Inl e \<Rightarrow> (Inl e, st)
           | Inr st' \<Rightarrow> (Inr (), st')))"

text \<open>
  The head of one turn of the loop of the pump, up to the call of \<^verbatim>\<open>recurse\<close>: the id,
  the status and what is handed to \<^verbatim>\<open>recurse\<close>. \<open>Inl\<close> is what it throws.
\<close>

definition header_json ::
  "textcodec \<Rightarrow> string \<Rightarrow> error + number \<times> number \<times> payload option" where
  "header_json tc chunk =
     (case JSON_parse_js tc (Some chunk) of
        Inl e \<Rightarrow> Inl e
      | Inr parsed \<Rightarrow>
          (case elements parsed of
             Inl e \<Rightarrow> Inl e
           | Inr xs \<Rightarrow>
               (case assertNumber (at xs 0) of
                  Inl e \<Rightarrow> Inl e
                | Inr idx \<Rightarrow>
                    (case assertNumber (at xs 1) of
                       Inl e \<Rightarrow> Inl e
                     | Inr status \<Rightarrow> Inr (idx, status, at xs 2)))))"

definition header_delimited :: "string \<Rightarrow> error + number \<times> number \<times> string" where
  "header_delimited chunk =
     (let index = indexOf chunk CHR '':'' in
      case asNumberOrThrow (slice chunk 0 index) of
        Inl e \<Rightarrow> Inl e
      | Inr idx \<Rightarrow>
          (let str = slice_from chunk (index + 1);
               index' = indexOf str CHR '':'' in
           case asNumberOrThrow (slice str 0 index') of
             Inl e \<Rightarrow> Inl e
           | Inr status \<Rightarrow> Inr (idx, status, slice_from str (index' + 1))))"

text \<open>
  One turn of the loop of the pump on a chunk that arrived; \<open>Inl\<close> is what the turn throws,
  with the state it leaves. \<open>JsonArray\<close> writes
  \<^verbatim>\<open>enqueueMap.get(idx)?.([status, recurse(flattened)])\<close>: the sink is looked up first, and
  without a sink the argument, and so \<^verbatim>\<open>recurse\<close>, is not evaluated. \<open>Delimited\<close> calls
  \<^verbatim>\<open>recurse\<close> first, in a statement of its own.
\<close>

definition pump_turn ::
  "framing \<Rightarrow> textcodec \<Rightarrow> string list \<Rightarrow> string \<Rightarrow> decoder \<Rightarrow> (error + unit) \<times> decoder" where
  "pump_turn f tc rv chunk st =
     (case f of
        JsonArray \<Rightarrow>
          (case header_json tc chunk of
             Inl e \<Rightarrow> (Inl e, st)
           | Inr (idx, status, flattened) \<Rightarrow>
               (case em_get idx (enqueueMap st) of
                  None \<Rightarrow> (Inr (), st)
                | Some h \<Rightarrow>
                    (case recurse_json rv flattened st of
                       (Inl e, st') \<Rightarrow> (Inl e, st')
                     | (Inr v, st') \<Rightarrow>
                         (case enqueue f h (Frame status v) st' of
                            Inl e \<Rightarrow> (Inl e, st')
                          | Inr st'' \<Rightarrow> (Inr (), st'')))))
      | Delimited \<Rightarrow>
          (case header_delimited chunk of
             Inl e \<Rightarrow> (Inl e, st)
           | Inr (idx, status, str) \<Rightarrow>
               (case recurse_text tc rv (Some str) st of
                  (Inl e, st') \<Rightarrow> (Inl e, st')
                | (Inr v, st') \<Rightarrow> dispatch f idx status v st')))"

text \<open>
  The \<^verbatim>\<open>catch\<close> handler of the pump. In \<open>JsonArray\<close> a cause that is an \<^verbatim>\<open>Error\<close> is
  passed on as it is; everything the pump of the model throws is an \<^verbatim>\<open>Error\<close>. When
  \<^verbatim>\<open>enqueue\<close> throws in the loop of the handler, the loop ends there and nothing
  catches the throw.
\<close>

definition pump_catch :: "framing \<Rightarrow> error \<Rightarrow> decoder \<Rightarrow> decoder" where
  "pump_catch f cause st =
     (case f of
        JsonArray \<Rightarrow> (snd (enqueue_all f cause st))\<lparr>pumping := False\<rparr>
      | Delimited \<Rightarrow> (snd (enqueue_all f (StreamInterrupted cause) st))\<lparr>pumping := False\<rparr>)"

definition pump_chunk :: "framing \<Rightarrow> textcodec \<Rightarrow> string list \<Rightarrow> string \<Rightarrow> decoder \<Rightarrow> decoder" where
  "pump_chunk f tc rv chunk st =
     (case pump_turn f tc rv chunk st of
        (Inl e, st') \<Rightarrow> pump_catch f e st'
      | (Inr u, st') \<Rightarrow> st')"

text \<open>
  The chunk sequence ends: \<^verbatim>\<open>if (result.done) break\<close> and what follows the loop. In
  \<open>JsonArray\<close> the loop over \<^verbatim>\<open>enqueueMap\<close> that follows is inside the function whose
  rejection the \<^verbatim>\<open>catch\<close> handler takes.
\<close>

definition pump_end :: "framing \<Rightarrow> decoder \<Rightarrow> decoder" where
  "pump_end f st =
     (case f of
        JsonArray \<Rightarrow>
          (case enqueue_all f StreamInterruptedMalformed st of
             (Inl e, st') \<Rightarrow> pump_catch f e st'
           | (Inr u, st') \<Rightarrow> st'\<lparr>pumping := False\<rparr>)
      | Delimited \<Rightarrow> st\<lparr>pumping := False\<rparr>)"

text \<open>
  \<^verbatim>\<open>parseAsync(value, revivers)\<close> and \<^verbatim>\<open>parseAsyncIterable(value, revivers)\<close> up to their
  \<^verbatim>\<open>return\<close>. \<open>head\<close> is the first result of the chunk iterator: its \<^verbatim>\<open>value\<close>
  (\<open>None\<close> for \<^verbatim>\<open>undefined\<close>) and its \<^verbatim>\<open>done\<close>; a sequence that ends before it has
  given a chunk answers \<open>Head None True\<close>. The result is what the returned promise settles
  with (\<open>Inl\<close>: it rejects).
\<close>

datatype head = Head (head_value: "string option") (head_done: bool)

definition decoder0 :: decoder where
  "decoder0 = \<lparr>enqueueMap = [], revived = [], pumping = False\<rparr>"

definition parseAsync ::
  "framing \<Rightarrow> textcodec \<Rightarrow> string list \<Rightarrow> head \<Rightarrow> (error + dval) \<times> decoder" where
  "parseAsync f tc rv head =
     (case f of
        JsonArray \<Rightarrow>
          (case JSON_parse_js tc (head_value head) of
             Inl e \<Rightarrow> (Inl e, decoder0)
           | Inr parsed \<Rightarrow>
               (case recurse_json rv (Some parsed) decoder0 of
                  (Inl e, st) \<Rightarrow> (Inl e, st)
                | (Inr headValue, st) \<Rightarrow>
                    (Inr headValue, st\<lparr>pumping := \<not> head_done head\<rparr>)))
      | Delimited \<Rightarrow>
          recurse_text tc rv (head_value head) (decoder0\<lparr>pumping := \<not> head_done head\<rparr>))"

text \<open>
  What moves the decoder afterwards: a chunk arrives, the chunk sequence ends, the
  consumer pulls on a decoded AsyncIterable, or the \<^verbatim>\<open>reader.cancel()\<close> that the
  reviver of a revived object awaits has settled.
\<close>

datatype event = Chunk string | End | Pull nat | Cancelled nat

definition dstep :: "framing \<Rightarrow> textcodec \<Rightarrow> string list \<Rightarrow> event \<Rightarrow> decoder \<Rightarrow> decoder option" where
  "dstep f tc rv ev st =
     (case ev of
        Chunk c \<Rightarrow> (if pumping st then Some (pump_chunk f tc rv c st) else None)
      | End \<Rightarrow> (if pumping st then Some (pump_end f st) else None)
      | Pull h \<Rightarrow> pull f h st
      | Cancelled h \<Rightarrow> cancelled h st)"

fun drun :: "framing \<Rightarrow> textcodec \<Rightarrow> string list \<Rightarrow> event list \<Rightarrow> decoder \<Rightarrow> decoder option" where
  "drun f tc rv [] st = Some st"
| "drun f tc rv (ev # evs) st =
     (case dstep f tc rv ev st of None \<Rightarrow> None | Some st' \<Rightarrow> drun f tc rv evs st')"

section \<open>Sample inputs\<close>

text \<open>
  A text layer for the examples, after the format of the synchronous codec: the number
  \<open>n\<close> is written \<^verbatim>\<open>[n]\<close>, the placeholder of producer \<open>i\<close> is written
  \<^verbatim>\<open>[["Promise",1],i]\<close> or \<^verbatim>\<open>[["AsyncIterable",1],i]\<close>. \<open>sample_JSON_parse\<close> reads the
  texts the examples use, each as the tree it denotes.
\<close>

definition text_number :: "nat \<Rightarrow> string" where
  "text_number n = ''['' @ dec n @ '']''"

definition text_placeholder :: "string \<Rightarrow> nat \<Rightarrow> string" where
  "text_placeholder tag i =
     ''[['' @ [CHR 0x22] @ tag @ [CHR 0x22] @ '',1],'' @ dec i @ '']''"

definition text_string :: "string \<Rightarrow> string" where
  "text_string s = ''['' @ [CHR 0x22] @ s @ [CHR 0x22] @ '']''"

definition sample_render :: "payload \<Rightarrow> string" where
  "sample_render p =
     (case p of
        PNum n \<Rightarrow> text_number (nat n)
      | PStr s \<Rightarrow> text_string s
      | PPromise i \<Rightarrow> text_placeholder ''Promise'' i
      | PAsyncIterable i \<Rightarrow> text_placeholder ''AsyncIterable'' i
      | _ \<Rightarrow> ''null'')"

text \<open>
  The text \<^verbatim>\<open>[[1,3],["Promise",2],1,["Promise",4],2]\<close>: an array of two Promises, of
  the producers 1 and 2.
\<close>

definition two_promises_text :: string where
  "two_promises_text =
     ''[[1,3],['' @ [CHR 0x22] @ ''Promise'' @ [CHR 0x22] @ '',2],1,['' @
     [CHR 0x22] @ ''Promise'' @ [CHR 0x22] @ '',4],2]''"

text \<open>The chunk \<^verbatim>\<open>["x",0,[1]]\<close> of \<open>JsonArray\<close>, whose id is a string.\<close>

definition string_id_chunk :: string where
  "string_id_chunk = ''['' @ [CHR 0x22] @ ''x'' @ [CHR 0x22] @ '',0,[1]]'' @ [CHR 0x0A]"

definition sample_JSON_parse :: "string \<Rightarrow> payload option" where
  "sample_JSON_parse =
     map_of
       [(text_placeholder ''Promise'' 1, PPromise 1),
        (text_placeholder ''AsyncIterable'' 1, PAsyncIterable 1),
        (text_placeholder ''Promise'' 1 @ [CHR 0x0A], PPromise 1),
        (two_promises_text, PArr [PPromise 1, PPromise 2]),
        (text_placeholder ''AsyncIterable'' 1 @ [CHR 0x0A], PAsyncIterable 1),
        (''[1]'', PNum 1),
        (''[2]'', PNum 2),
        (text_string ''a:b'', PStr ''a:b''),
        (''[1,0,[1]]'' @ [CHR 0x0A], PArr [PNum 1, PNum 0, PNum 1]),
        (''[1,2,[2]]'' @ [CHR 0x0A], PArr [PNum 1, PNum 2, PNum 2]),
        (string_id_chunk, PArr [PStr ''x'', PNum 0, PNum 1])]"

definition sample_codec :: textcodec where
  "sample_codec = \<lparr>render = sample_render, JSON_parse = sample_JSON_parse\<rparr>"

definition no_options :: options where
  "no_options = \<lparr>revivers = [], coerceError = None\<rparr>"

definition coercing_options :: options where
  "coercing_options = \<lparr>revivers = [], coerceError = Some (\<lambda>cause. Inr (VNum 0))\<rparr>"

definition sample_error :: val where
  "sample_error = VObject ''Error'' (VStr ''boom'')"

text \<open>An AsyncIterable that yields 1 and returns 2, and the text of its placeholder.\<close>

definition sample_sequence :: val where
  "sample_sequence = VAsyncIterable [VNum 1] (Return (VNum 2))"

definition sequence_text :: string where
  "sequence_text = text_placeholder ''AsyncIterable'' 1"

definition promise_text :: string where
  "promise_text = text_placeholder ''Promise'' 1"

lemmas sample_defs =
  sample_codec_def sample_render_def sample_JSON_parse_def text_number_def
  text_placeholder_def text_string_def string_id_chunk_def sequence_text_def promise_text_def
  two_promises_text_def
  no_options_def coercing_options_def sample_sequence_def sample_error_def digit_def

section \<open>Reading the end of a producer\<close>

text \<open>
  The last \<^verbatim>\<open>next()\<close> of a producer that has handed over \<open>fr\<close> as its last frame and
  has finished: in \<open>JsonArray\<close> the frame was yielded, and the \<^verbatim>\<open>next()\<close> after it is done
  and has no value; in \<open>Delimited\<close> the frame is the return value, so the \<^verbatim>\<open>next()\<close>
  that gave it is done.
\<close>

definition final_next :: "framing \<Rightarrow> frame \<Rightarrow> next_promise" where
  "final_next f fr =
     Resolved (IterResult (case f of JsonArray \<Rightarrow> None | Delimited \<Rightarrow> Some fr) True)"

text \<open>\<open>ended stop\<close>: the generator has finished, and its last \<^verbatim>\<open>next()\<close> says so.\<close>

definition ended :: "gen \<times> next_promise \<Rightarrow> bool" where
  "ended stop =
     (fst stop = Completed \<and>
      (case snd stop of Pending \<Rightarrow> False | Resolved r \<Rightarrow> res_done r | Rejected e \<Rightarrow> True))"

section \<open>Reading the state of a sink\<close>

text \<open>
  What receiving \<open>m\<close> makes of a revived object whose stream is open: a waiting Promise
  has what it settles with, an AsyncIterable whose consumer is waiting has the answer to the
  pull, one that is suspended at its \<^verbatim>\<open>yield\<close> keeps \<open>m\<close> in the queue of its stream.
  In \<open>Delimited\<close> an object that has come to its end is then at \<^verbatim>\<open>await reader.cancel()\<close>.
\<close>

fun receive :: "framing \<Rightarrow> msg \<Rightarrow> revived \<Rightarrow> revived" where
  "receive f m (RevPromise idx PWaiting) =
     RevPromise idx
       (case f of JsonArray \<Rightarrow> promise_outcome f m | Delimited \<Rightarrow> PClosing (promise_outcome f m))"
| "receive f m (RevPromise idx s) = RevPromise idx s"
| "receive f m (RevIterable idx IterReading q rs) =
     (if fst (iter_outcome f m) = IterEnded \<and> f = Delimited
      then RevIterable idx (IterClosing (snd (iter_outcome f m))) q rs
      else RevIterable idx (fst (iter_outcome f m)) q (rs @ [snd (iter_outcome f m)]))"
| "receive f m (RevIterable idx IterIdle q rs) = RevIterable idx IterIdle (q @ [m]) rs"
| "receive f m (RevIterable idx s q rs) = RevIterable idx s q rs"

text \<open>
  \<open>sink_open st h\<close>: the stream of the revived object \<open>h\<close> is open. \<open>reached st\<close>: the
  sinks a loop over \<^verbatim>\<open>enqueueMap\<close> serves before \<^verbatim>\<open>enqueue\<close> throws: those in front
  of the first one whose stream is closed.
\<close>

definition sink_open :: "decoder \<Rightarrow> nat \<Rightarrow> bool" where
  "sink_open st h \<longleftrightarrow>
     h < length (revived st) \<and>
     (case revived st ! h of
        RevPromise idx s \<Rightarrow> s = PWaiting
      | RevIterable idx s q rs \<Rightarrow> s = IterReading \<or> s = IterIdle)"

definition reached :: "decoder \<Rightarrow> nat list" where
  "reached st = takeWhile (sink_open st) (map snd (enqueueMap st))"





text \<open>
  The decoder after the root chunk \<open>two_promises_text\<close>, and the same after the chunk
  \<^verbatim>\<open>1:0:[1]\<close>: the first Promise is at \<^verbatim>\<open>await reader.cancel()\<close>, the second waits.
\<close>

definition two_sinks :: decoder where
  "two_sinks = snd (parseAsync Delimited sample_codec [] (Head (Some two_promises_text) False))"

definition one_closing :: decoder where
  "one_closing = pump_chunk Delimited sample_codec [] ''1:0:[1]'' two_sinks"

text \<open>
  \<open>entered f r k\<close>: the revived object \<open>r\<close> was revived for producer \<open>k\<close>, and either its
  stream is open or, in \<open>Delimited\<close>, it is at \<^verbatim>\<open>await reader.cancel()\<close>. \<open>sinks_ok\<close>:
  every entry of \<open>enqueueMap\<close> leads to such an object, under the object's own id, and no
  id is entered twice.
\<close>

definition entered :: "framing \<Rightarrow> revived \<Rightarrow> nat \<Rightarrow> bool" where
  "entered f r k =
     (case r of
        RevPromise idx s \<Rightarrow> idx = k \<and> (s = PWaiting \<or> f = Delimited \<and> (\<exists>s'. s = PClosing s'))
      | RevIterable idx s q rs \<Rightarrow>
          idx = k \<and> (s = IterReading \<or> s = IterIdle \<or> f = Delimited \<and> (\<exists>r. s = IterClosing r)))"

definition sinks_ok :: "framing \<Rightarrow> decoder \<Rightarrow> bool" where
  "sinks_ok f st \<longleftrightarrow>
     distinct (map fst (enqueueMap st)) \<and>
     list_all (\<lambda>(k, h). h < length (revived st) \<and> entered f (revived st ! h) k) (enqueueMap st)"


section \<open>The live producers of an encoder\<close>

text \<open>
  The entries that are alive: those of \<^verbatim>\<open>buffer\<close> and, in \<open>JsonArray\<close>, the entry the
  encoder holds while it is suspended at the \<^verbatim>\<open>yield\<close> of that entry's chunk (the source
  has deleted it from the \<^verbatim>\<open>Set\<close> and adds it again when it is resumed; in \<open>Delimited\<close>
  the entry is still in the \<^verbatim>\<open>Set\<close> at that point).
\<close>

definition active :: "framing \<Rightarrow> encoder \<Rightarrow> entry list" where
  "active f st =
     buffer st @
     (case control st of
        AtChunkYield e \<Rightarrow> (case f of JsonArray \<Rightarrow> [e] | Delimited \<Rightarrow> [])
      | _ \<Rightarrow> [])"

text \<open>
  \<open>grows st st'\<close>: \<open>st'\<close> comes from \<open>st\<close> by registrations only, each with the next id.
\<close>

definition grows :: "encoder \<Rightarrow> encoder \<Rightarrow> bool" where
  "grows st st' \<longleftrightarrow>
     control st' = control st \<and> counter st \<le> counter st' \<and>
     registrations st' = registrations st @ map Suc [counter st..<counter st'] \<and>
     map eid (buffer st') = map eid (buffer st) @ map Suc [counter st..<counter st']"

definition held_ok :: "framing \<Rightarrow> encoder \<Rightarrow> bool" where
  "held_ok f st =
     (case control st of
        AtChunkYield e \<Rightarrow>
          1 \<le> eid e \<and> eid e \<le> counter st \<and>
          (case f of JsonArray \<Rightarrow> eid e \<notin> set (map eid (buffer st)) | Delimited \<Rightarrow> True)
      | _ \<Rightarrow> True)"

definition ids_ok :: "framing \<Rightarrow> encoder \<Rightarrow> bool" where
  "ids_ok f st \<longleftrightarrow>
     registrations st = map Suc [0..<counter st] \<and>
     distinct (map eid (buffer st)) \<and>
     set (map eid (buffer st)) \<subseteq> {1..counter st} \<and>
     held_ok f st"

section \<open>The error cause of a producer (C5)\<close>

lemma recurse_sample_error:
  "''Error'' \<notin> set (revivers opts) \<Longrightarrow>
   recurse sample_codec opts sample_error st = (Inl DevalueError, st)"
  by (simp add: recurse_def sample_error_def)

text \<open>
  C5. \<^verbatim>\<open>safeCause\<close> first encodes the cause itself, and that encoding is its result when
  it succeeds. When the encoding throws and \<^verbatim>\<open>options.coerceError\<close> is set, the result is
  the encoding of \<^verbatim>\<open>coerceError(cause)\<close>, made in the state the failed attempt left. When
  the encoding throws and \<^verbatim>\<open>coerceError\<close> is not set, \<^verbatim>\<open>safeCause\<close> throws what the
  encoding threw.
\<close>

theorem safeCause_cases:
  "(recurse tc opts cause st = (Inr t, st') \<longrightarrow> safeCause tc opts cause st = (Inr t, st')) \<and>
   (recurse tc opts cause st = (Inl err, st') \<and> coerceError opts = Some coerce \<and>
      coerce cause = Inr cause' \<longrightarrow>
      safeCause tc opts cause st = recurse tc opts cause' st') \<and>
   (recurse tc opts cause st = (Inl err, st') \<and> coerceError opts = None \<longrightarrow>
      safeCause tc opts cause st = (Inl err, st'))"
  by (simp add: safeCause_def)

theorem safeCause_cases_witness:
  "recurse sample_codec no_options (VNum 1) (stringifyAsync (VNum 0)) =
     (Inr ''[1]'', stringifyAsync (VNum 0)) \<and>
   safeCause sample_codec no_options (VNum 1) (stringifyAsync (VNum 0)) =
     (Inr ''[1]'', stringifyAsync (VNum 0)) \<and>
   recurse sample_codec coercing_options sample_error (stringifyAsync (VNum 0)) =
     (Inl DevalueError, stringifyAsync (VNum 0)) \<and>
   safeCause sample_codec coercing_options sample_error (stringifyAsync (VNum 0)) =
     (Inr ''[0]'', stringifyAsync (VNum 0)) \<and>
   recurse sample_codec no_options sample_error (stringifyAsync (VNum 0)) =
     (Inl DevalueError, stringifyAsync (VNum 0)) \<and>
   safeCause sample_codec no_options sample_error (stringifyAsync (VNum 0)) =
     (Inl DevalueError, stringifyAsync (VNum 0))"
proof -
  let ?st = "stringifyAsync (VNum 0)"
  have a: "recurse sample_codec no_options (VNum 1) ?st = (Inr ''[1]'', ?st)"
    by (simp add: recurse_def sample_defs dec.simps)
  have b: "recurse sample_codec coercing_options sample_error ?st = (Inl DevalueError, ?st)"
    by (simp add: recurse_sample_error coercing_options_def)
  have c: "recurse sample_codec no_options sample_error ?st = (Inl DevalueError, ?st)"
    by (simp add: recurse_sample_error no_options_def)
  have d: "recurse sample_codec coercing_options (VNum 0) ?st = (Inr ''[0]'', ?st)"
    by (simp add: recurse_def sample_defs dec.simps)
  have ce: "coerceError coercing_options = Some (\<lambda>cause. Inr (VNum 0))"
    by (simp add: coercing_options_def)
  have cn: "coerceError no_options = None"
    by (simp add: no_options_def)
  from safeCause_cases [of sample_codec no_options "VNum 1" ?st "''[1]''" ?st] a
  have 1: "safeCause sample_codec no_options (VNum 1) ?st = (Inr ''[1]'', ?st)"
    by simp
  from safeCause_cases [of sample_codec coercing_options sample_error ?st _ ?st DevalueError
      "\<lambda>cause. Inr (VNum 0)" "VNum 0"] b ce d
  have 2: "safeCause sample_codec coercing_options sample_error ?st = (Inr ''[0]'', ?st)"
    by simp
  from safeCause_cases [of sample_codec no_options sample_error ?st _ ?st DevalueError] c cn
  have 3: "safeCause sample_codec no_options sample_error ?st = (Inl DevalueError, ?st)"
    by simp
  from a b c 1 2 3 show ?thesis by simp
qed

section \<open>The empty chunk sequence (C9)\<close>

text \<open>
  C9. When the chunk sequence ends before it has given a chunk, the promise \<^verbatim>\<open>parseAsync\<close>
  returns, and the one \<^verbatim>\<open>parseAsyncIterable\<close> returns, rejects: the value of the head
  is \<^verbatim>\<open>undefined\<close>, and parsing it throws a SyntaxError. No sink is registered, and no
  pump runs.
\<close>

theorem empty_stream_rejects:
  "parseAsync f tc rv (Head None True) = (Inl SyntaxError, decoder0)"
  by (cases f) (simp_all add: parseAsync_def JSON_parse_js_def recurse_text_def decoder0_def)

section \<open>The header of a delimited chunk (C10)\<close>


lemma indexOf_nonneg_or_absent: "indexOf s c = -1 \<or> 0 \<le> indexOf s c"
  by (induction s) (auto simp: Let_def)

lemma indexOf_first: "c \<notin> set a \<Longrightarrow> indexOf (a @ c # s) c = int (length a)"
  by (induction a) (auto simp: Let_def)

lemma slice_prefix: "slice (a @ s) 0 (int (length a)) = a"
  by (simp add: slice_def slice_bound_def)

lemma slice_from_suffix: "slice_from (a @ c # s) (int (length a) + 1) = s"
  by (simp add: slice_from_def slice_bound_def nat_add_distrib)

lemma header_delimited_two_colons:
  assumes "CHR '':'' \<notin> set a" and "CHR '':'' \<notin> set b"
  shows "header_delimited (a @ '':'' @ b @ '':'' @ p) =
     (case asNumberOrThrow a of
        Inl e \<Rightarrow> Inl e
      | Inr idx \<Rightarrow>
          (case asNumberOrThrow b of
             Inl e \<Rightarrow> Inl e
           | Inr status \<Rightarrow> Inr (idx, status, p)))"
proof -
  have 1: "indexOf (a @ CHR '':'' # b @ CHR '':'' # p) CHR '':'' = int (length a)"
    using assms(1) by (rule indexOf_first)
  have 2: "indexOf (b @ CHR '':'' # p) CHR '':'' = int (length b)"
    using assms(2) by (rule indexOf_first)
  have 3: "slice (a @ CHR '':'' # b @ CHR '':'' # p) 0 (int (length a)) = a"
    by (rule slice_prefix)
  have 4: "slice_from (a @ CHR '':'' # b @ CHR '':'' # p) (int (length a) + 1) = b @ CHR '':'' # p"
    by (rule slice_from_suffix)
  have 5: "slice (b @ CHR '':'' # p) 0 (int (length b)) = b"
    by (rule slice_prefix)
  have 6: "slice_from (b @ CHR '':'' # p) (int (length b) + 1) = p"
    by (rule slice_from_suffix)
  show ?thesis
    by (simp add: header_delimited_def Let_def 1 2 3 4 5 6 split: sum.splits)
qed

text \<open>
  C10. The pump of \<^verbatim>\<open>parseAsyncIterable\<close> splits a producer chunk at its first two
  colons only: the id is read from the text before the first colon, the status from the
  text between the first and the second, and the whole remainder, further colons included,
  is what \<^verbatim>\<open>recurse\<close> (the synchronous decoder) is given.
\<close>

theorem pump_splits_at_first_two_colons:
  assumes "CHR '':'' \<notin> set a" and "CHR '':'' \<notin> set b"
  shows "pump_turn Delimited tc rv (a @ '':'' @ b @ '':'' @ p) st =
     (case asNumberOrThrow a of
        Inl e \<Rightarrow> (Inl e, st)
      | Inr idx \<Rightarrow>
          (case asNumberOrThrow b of
             Inl e \<Rightarrow> (Inl e, st)
           | Inr status \<Rightarrow>
               (case recurse_text tc rv (Some p) st of
                  (Inl e, st') \<Rightarrow> (Inl e, st')
                | (Inr v, st') \<Rightarrow> dispatch Delimited idx status v st')))"
  using header_delimited_two_colons [OF assms, of p]
  by (auto simp: pump_turn_def split: sum.splits)

lemma bit_length_le: "n < 2 ^ k \<Longrightarrow> bit_length n \<le> k"
proof (induction n arbitrary: k rule: bit_length.induct)
  case (1 n)
  show ?case
  proof (cases "n = 0")
    case True
    then show ?thesis by (simp add: bit_length.simps)
  next
    case False
    with "1.prems" obtain k' where k: "k = Suc k'" by (cases k) auto
    with "1.prems" have "n div 2 < 2 ^ k'" by auto
    with "1.IH" [OF False] have "bit_length (n div 2) \<le> k'" .
    with False k show ?thesis by (simp add: bit_length.simps [of n])
  qed
qed

text \<open>Below \<open>2 ^ 53\<close> a natural number is its own Number value.\<close>

lemma to_number_exact: "n < 2 ^ 53 \<Longrightarrow> to_number n = Number (int n)"
proof -
  assume n: "n < 2 ^ 53"
  then have "bit_length n - 53 = 0" using bit_length_le [of n 53] by simp
  moreover from n have "n < 2 ^ 1024"
    by (rule less_le_trans) (simp add: power_increasing)
  ultimately show ?thesis by (simp add: to_number_def)
qed

text \<open>From there on it is rounded: \<open>2 ^ 53 + 1\<close> is read as \<open>2 ^ 53\<close>.\<close>

lemma to_number_rounds: "to_number (2 ^ 53 + 1) = Number (2 ^ 53)"
proof -
  have "bit_length (2 ^ 53 + 1) = 54"
    by (simp add: bit_length.simps)
  then show ?thesis by (simp add: to_number_def)
qed

lemma asNumberOrThrow_1: "asNumberOrThrow ''1'' = Inr (Number 1)"
  by (simp add: asNumberOrThrow_def is_digit_def parseInt_def to_number_exact)

lemma asNumberOrThrow_0: "asNumberOrThrow ''0'' = Inr (Number 0)"
  by (simp add: asNumberOrThrow_def is_digit_def parseInt_def to_number_exact)

theorem pump_splits_at_first_two_colons_witness:
  "CHR '':'' \<notin> set ''1'' \<and> CHR '':'' \<notin> set ''0'' \<and>
   recurse_text sample_codec [] (Some (text_string ''a:b'')) decoder0 =
     (Inr (DStr ''a:b''), decoder0) \<and>
   pump_turn Delimited sample_codec [] (''1'' @ '':'' @ ''0'' @ '':'' @ text_string ''a:b'')
       decoder0 =
     dispatch Delimited (Number 1) (Number 0) (DStr ''a:b'') decoder0"
proof -
  have a: "CHR '':'' \<notin> set ''1''" by simp
  have b: "CHR '':'' \<notin> set ''0''" by simp
  have r: "recurse_text sample_codec [] (Some (text_string ''a:b'')) decoder0 =
      (Inr (DStr ''a:b''), decoder0)"
    by (simp add: recurse_text_def JSON_parse_js_def sample_defs)
  from pump_splits_at_first_two_colons [OF a b, of sample_codec "[]" "text_string ''a:b''"
      decoder0]
  have "pump_turn Delimited sample_codec [] (''1'' @ '':'' @ ''0'' @ '':'' @ text_string ''a:b'')
      decoder0 = dispatch Delimited (Number 1) (Number 0) (DStr ''a:b'') decoder0"
    by (simp add: asNumberOrThrow_1 asNumberOrThrow_0 r)
  with a b r show ?thesis by simp
qed

section \<open>The sinks of a decoder\<close>

lemma sinks_okD:
  "sinks_ok f st \<Longrightarrow> (k, h) \<in> set (enqueueMap st) \<Longrightarrow>
   h < length (revived st) \<and> entered f (revived st ! h) k"
  by (auto simp: sinks_ok_def list_all_iff)

lemma sinks_okI:
  "distinct (map fst (enqueueMap st)) \<Longrightarrow>
   (\<And>k h. (k, h) \<in> set (enqueueMap st) \<Longrightarrow>
      h < length (revived st) \<and> entered f (revived st ! h) k) \<Longrightarrow>
   sinks_ok f st"
  by (auto simp: sinks_ok_def list_all_iff)

lemma entered_id: "entered f r k \<Longrightarrow> entered f r k' \<Longrightarrow> k = k'"
  by (auto simp: entered_def split: revived.splits)

lemma sinks_ok_distinct_handles:
  assumes "sinks_ok f st"
  shows "distinct (map snd (enqueueMap st))"
proof -
  have "inj_on snd (set (enqueueMap st))"
  proof (rule inj_onI)
    fix x y
    assume x: "x \<in> set (enqueueMap st)" and y: "y \<in> set (enqueueMap st)"
      and eq: "snd x = snd y"
    from sinks_okD [OF assms, of "fst x" "snd x"] x
    have 1: "entered f (revived st ! snd x) (fst x)" by simp
    from sinks_okD [OF assms, of "fst y" "snd y"] y
    have 2: "entered f (revived st ! snd y) (fst y)" by simp
    from 1 2 eq have "fst x = fst y" by (auto dest: entered_id)
    with eq show "x = y" by (simp add: prod_eq_iff)
  qed
  moreover from assms have "distinct (enqueueMap st)"
    by (auto simp: sinks_ok_def dest: distinct_map [THEN iffD1])
  ultimately show ?thesis by (simp add: distinct_map)
qed

lemma map_fst_replace:
  "map fst (map (\<lambda>(k', h'). if k' = k then (k, h) else (k', h')) m) = map fst m"
  by (induction m) auto

lemma distinct_em_set: "distinct (map fst m) \<Longrightarrow> distinct (map fst (em_set k h m))"
  unfolding em_set_def by (simp only: map_fst_replace split: if_split) auto

lemma set_em_set:
  "(k', h') \<in> set (em_set k h m) \<Longrightarrow> (k', h') = (k, h) \<or> (k' \<noteq> k \<and> (k', h') \<in> set m)"
  by (force simp: em_set_def split: if_splits)

lemma distinct_em_delete: "distinct (map fst m) \<Longrightarrow> distinct (map fst (em_delete k m))"
  by (simp add: em_delete_def distinct_map_filter)

lemma set_em_delete: "(k', h') \<in> set (em_delete k m) \<longleftrightarrow> k' \<noteq> k \<and> (k', h') \<in> set m"
  by (auto simp: em_delete_def)

lemma sinks_ok_append:
  assumes "sinks_ok f st"
  shows "sinks_ok f (st\<lparr>revived := revived st @ [r]\<rparr>)"
proof (rule sinks_okI)
  from assms show "distinct (map fst (enqueueMap (st\<lparr>revived := revived st @ [r]\<rparr>)))"
    by (simp add: sinks_ok_def)
next
  fix k h
  assume "(k, h) \<in> set (enqueueMap (st\<lparr>revived := revived st @ [r]\<rparr>))"
  with sinks_okD [OF assms, of k h]
  show "h < length (revived (st\<lparr>revived := revived st @ [r]\<rparr>)) \<and>
      entered f (revived (st\<lparr>revived := revived st @ [r]\<rparr>) ! h) k"
    by (simp add: nth_append)
qed

lemma sinks_ok_register:
  assumes "sinks_ok f st" and "h < length (revived st)" and "entered f (revived st ! h) k"
  shows "sinks_ok f (registerAsync k h st)"
proof (rule sinks_okI)
  from assms(1) show "distinct (map fst (enqueueMap (registerAsync k h st)))"
    by (simp add: registerAsync_def sinks_ok_def distinct_em_set)
next
  fix k' h'
  assume "(k', h') \<in> set (enqueueMap (registerAsync k h st))"
  then have "(k', h') = (k, h) \<or> (k', h') \<in> set (enqueueMap st)"
    by (auto simp: registerAsync_def dest: set_em_set)
  with assms(2,3) sinks_okD [OF assms(1), of k' h']
  show "h' < length (revived (registerAsync k h st)) \<and>
      entered f (revived (registerAsync k h st) ! h') k'"
    by (auto simp: registerAsync_def)
qed

text \<open>
  An object changes, and leaves the map when its reviver has ended: the entries of all
  other objects stay as they are.
\<close>

lemma sinks_ok_update:
  assumes ok: "sinks_ok f st" and h: "h < length (revived st)"
    and step: "\<And>k. entered f (revived st ! h) k \<Longrightarrow> k = idx \<and> (entered f r idx \<or> del)"
  shows "sinks_ok f (st\<lparr>revived := (revived st)[h := r],
           enqueueMap := (if del then em_delete idx (enqueueMap st) else enqueueMap st)\<rparr>)"
    (is "sinks_ok f ?new")
proof (rule sinks_okI)
  from ok show "distinct (map fst (enqueueMap ?new))"
    by (simp add: sinks_ok_def distinct_em_delete)
next
  fix k' h'
  assume mem: "(k', h') \<in> set (enqueueMap ?new)"
  then have in_old: "(k', h') \<in> set (enqueueMap st)" and nd: "del \<longrightarrow> k' \<noteq> idx"
    by (auto simp: set_em_delete split: if_splits)
  from sinks_okD [OF ok in_old] have lt: "h' < length (revived st)"
    and rc: "entered f (revived st ! h') k'" by simp_all
  show "h' < length (revived ?new) \<and> entered f (revived ?new ! h') k'"
  proof (cases "h' = h")
    case False
    with lt rc show ?thesis by simp
  next
    case True
    with rc step [of k'] have "k' = idx \<and> (entered f r idx \<or> del)" by simp
    with nd True h show ?thesis by auto
  qed
qed

lemma sinks_ok_update_keep:
  assumes "sinks_ok f st" and "h < length (revived st)"
    and "\<And>k. entered f (revived st ! h) k \<Longrightarrow> k = idx \<and> entered f r idx"
  shows "sinks_ok f (st\<lparr>revived := (revived st)[h := r]\<rparr>)"
proof -
  have "\<And>k. entered f (revived st ! h) k \<Longrightarrow> k = idx \<and> (entered f r idx \<or> False)"
    using assms(3) by blast
  from sinks_ok_update [OF assms(1,2) this] show ?thesis by simp
qed

lemma sinks_ok_update_delete:
  assumes "sinks_ok f st" and "h < length (revived st)"
    and "\<And>k. entered f (revived st ! h) k \<Longrightarrow> k = idx"
  shows "sinks_ok f (st\<lparr>revived := (revived st)[h := r],
           enqueueMap := em_delete idx (enqueueMap st)\<rparr>)"
proof -
  have "\<And>k. entered f (revived st ! h) k \<Longrightarrow> k = idx \<and> (entered f r idx \<or> True)"
    using assms(3) by blast
  from sinks_ok_update [OF assms(1,2) this] show ?thesis by simp
qed

lemma sinks_ok_pumping: "sinks_ok f (st\<lparr>pumping := b\<rparr>) = sinks_ok f st"
  by (simp add: sinks_ok_def)

lemma iter_outcome_state:
  "fst (iter_outcome f m) = IterIdle \<or> fst (iter_outcome f m) = IterEnded"
  by (simp add: iter_outcome_def split: msg.split)

lemma sinks_ok_iter_read:
  assumes "sinks_ok f st" and "h < length (revived st)"
    and "\<And>k. entered f (revived st ! h) k \<Longrightarrow> k = idx"
  shows "sinks_ok f (iter_read f h idx m q rs st)"
proof -
  obtain s r where o: "iter_outcome f m = (s, r)" by (cases "iter_outcome f m")
  with iter_outcome_state [of f m] have s: "s = IterIdle \<or> s = IterEnded" by simp
  show ?thesis
  proof (cases "s = IterEnded")
    case False
    with s have idle: "s = IterIdle" by simp
    have "sinks_ok f (st\<lparr>revived := (revived st)[h := RevIterable idx IterIdle q (rs @ [r])]\<rparr>)"
      using assms(1,2)
      by (rule sinks_ok_update_keep [where idx = idx]) (simp add: assms(3) entered_def)
    with o idle show ?thesis by (simp add: iter_read_def)
  next
    case True
    show ?thesis
    proof (cases f)
      case JsonArray
      have "sinks_ok f (st\<lparr>revived := (revived st)[h := RevIterable idx IterEnded q (rs @ [r])],
          enqueueMap := em_delete idx (enqueueMap st)\<rparr>)"
        using assms by (rule sinks_ok_update_delete)
      with o True JsonArray show ?thesis by (simp add: iter_read_def)
    next
      case Delimited
      have "sinks_ok f (st\<lparr>revived := (revived st)[h := RevIterable idx (IterClosing r) q rs]\<rparr>)"
        using assms(1,2)
        by (rule sinks_ok_update_keep [where idx = idx])
          (simp add: assms(3) entered_def Delimited)
      with o True Delimited show ?thesis by (simp add: iter_read_def)
    qed
  qed
qed

lemma sinks_ok_enqueue:
  assumes "sinks_ok f st" and "enqueue f h m st = Inr new"
  shows "sinks_ok f new"
proof -
  from assms(2) have lt: "h < length (revived st)"
    by (simp add: enqueue_def split: if_splits)
  show ?thesis
  proof (cases "revived st ! h")
    case (RevPromise idx s)
    with assms(2) lt have w: "s = PWaiting"
      by (cases s) (simp_all add: enqueue_def)
    show ?thesis
    proof (cases f)
      case JsonArray
      have "sinks_ok f (st\<lparr>revived := (revived st)[h := RevPromise idx (promise_outcome f m)],
          enqueueMap := em_delete idx (enqueueMap st)\<rparr>)"
        using assms(1) lt
        by (rule sinks_ok_update_delete) (simp add: RevPromise entered_def)
      with assms(2) lt RevPromise w JsonArray show ?thesis by (simp add: enqueue_def)
    next
      case Delimited
      have "sinks_ok f
          (st\<lparr>revived := (revived st)[h := RevPromise idx (PClosing (promise_outcome f m))]\<rparr>)"
        using assms(1) lt
        by (rule sinks_ok_update_keep [where idx = idx])
          (simp add: RevPromise entered_def Delimited)
      with assms(2) lt RevPromise w Delimited show ?thesis by (simp add: enqueue_def)
    qed
  next
    case (RevIterable idx s q rs)
    show ?thesis
    proof (cases s)
      case IterReading
      have "sinks_ok f (iter_read f h idx m q rs st)"
        using assms(1) lt
        by (rule sinks_ok_iter_read) (simp add: RevIterable entered_def)
      with assms(2) lt RevIterable IterReading show ?thesis by (simp add: enqueue_def)
    next
      case IterIdle
      have "sinks_ok f (st\<lparr>revived := (revived st)[h := RevIterable idx IterIdle (q @ [m]) rs]\<rparr>)"
        using assms(1) lt
        by (rule sinks_ok_update_keep [where idx = idx]) (simp add: RevIterable entered_def)
      with assms(2) lt RevIterable IterIdle show ?thesis by (simp add: enqueue_def)
    qed (use assms(2) lt RevIterable in \<open>simp_all add: enqueue_def\<close>)
  qed
qed

lemma sinks_ok_enqueue_each:
  "sinks_ok f st \<Longrightarrow> sinks_ok f (snd (enqueue_each f m hs st))"
  by (induction hs arbitrary: st) (auto split: sum.splits dest: sinks_ok_enqueue)

lemma sinks_ok_enqueue_all: "sinks_ok f st \<Longrightarrow> sinks_ok f (snd (enqueue_all f e st))"
  by (simp add: enqueue_all_def sinks_ok_enqueue_each)

lemma sinks_ok_dispatch: "sinks_ok f st \<Longrightarrow> sinks_ok f (snd (dispatch f idx status v st))"
  by (auto simp: dispatch_def split: option.splits sum.splits dest: sinks_ok_enqueue)

lemma sinks_ok_pull:
  assumes "sinks_ok f st" and "pull f h st = Some new"
  shows "sinks_ok f new"
proof -
  from assms(2) have lt: "h < length (revived st)"
    by (simp add: pull_def split: if_splits)
  from assms(2) lt obtain idx s q rs where r: "revived st ! h = RevIterable idx s q rs"
    by (cases "revived st ! h") (simp_all add: pull_def)
  show ?thesis
  proof (cases s)
    case IterNew
    let ?st1 = "st\<lparr>revived := (revived st)[h := RevIterable idx IterReading [] rs]\<rparr>"
    have "sinks_ok f ?st1"
      using assms(1) lt
      by (rule sinks_ok_update_keep [where idx = idx]) (simp add: r IterNew entered_def)
    moreover from lt have "h < length (revived ?st1)" by simp
    moreover from lt have "entered f (revived ?st1 ! h) idx" by (simp add: entered_def)
    ultimately have "sinks_ok f (registerAsync idx h ?st1)" by (rule sinks_ok_register)
    with assms(2) lt r IterNew show ?thesis by (simp add: pull_def)
  next
    case IterIdle
    show ?thesis
    proof (cases q)
      case Nil
      have "sinks_ok f (st\<lparr>revived := (revived st)[h := RevIterable idx IterReading [] rs]\<rparr>)"
        using assms(1) lt
        by (rule sinks_ok_update_keep [where idx = idx]) (simp add: r IterIdle entered_def)
      with assms(2) lt r IterIdle Nil show ?thesis by (simp add: pull_def)
    next
      case (Cons m q')
      have "sinks_ok f (iter_read f h idx m q' rs st)"
        using assms(1) lt
        by (rule sinks_ok_iter_read) (simp add: r entered_def)
      with assms(2) lt r IterIdle Cons show ?thesis by (simp add: pull_def)
    qed
  next
    case IterReading
    with assms(2) lt r show ?thesis by (simp add: pull_def)
  next
    case (IterClosing a)
    with assms(2) lt r show ?thesis by (simp add: pull_def)
  next
    case IterEnded
    have "sinks_ok f (st\<lparr>revived := (revived st)[h := RevIterable idx IterEnded q (rs @ [Done None])]\<rparr>)"
      using assms(1) lt
      by (rule sinks_ok_update_keep [where idx = idx]) (simp add: r IterEnded entered_def)
    with assms(2) lt r IterEnded show ?thesis by (simp add: pull_def)
  qed
qed

lemma sinks_ok_cancelled:
  assumes "sinks_ok f st" and "cancelled h st = Some new"
  shows "sinks_ok f new"
proof -
  from assms(2) have lt: "h < length (revived st)"
    by (simp add: cancelled_def split: if_splits)
  show ?thesis
  proof (cases "revived st ! h")
    case (RevPromise idx s)
    with assms(2) lt obtain s' where s: "s = PClosing s'"
      by (cases s) (simp_all add: cancelled_def)
    have "sinks_ok f (st\<lparr>revived := (revived st)[h := RevPromise idx s'],
        enqueueMap := em_delete idx (enqueueMap st)\<rparr>)"
      using assms(1) lt
      by (rule sinks_ok_update_delete) (simp add: RevPromise entered_def)
    with assms(2) lt RevPromise s show ?thesis by (simp add: cancelled_def)
  next
    case (RevIterable idx s q rs)
    with assms(2) lt obtain r where s: "s = IterClosing r"
      by (cases s) (simp_all add: cancelled_def)
    have "sinks_ok f (st\<lparr>revived := (revived st)[h := RevIterable idx IterEnded q (rs @ [r])],
        enqueueMap := em_delete idx (enqueueMap st)\<rparr>)"
      using assms(1) lt
      by (rule sinks_ok_update_delete) (simp add: RevIterable entered_def)
    with assms(2) lt RevIterable s show ?thesis by (simp add: cancelled_def)
  qed
qed

lemma sinks_ok_unflatten:
  "sinks_ok f st \<Longrightarrow> sinks_ok f (snd (unflatten rv p st))"
  "sinks_ok f st \<Longrightarrow> sinks_ok f (snd (unflatten_list rv ps st))"
proof (induction rv p st and rv ps st rule: unflatten_unflatten_list.induct)
  case (5 rv idx st)
  show ?case
  proof -
    from \<open>sinks_ok f st\<close> have "sinks_ok f (st\<lparr>revived := revived st @ [RevPromise idx PWaiting]\<rparr>)"
      by (rule sinks_ok_append)
    then have "sinks_ok f (registerAsync idx (length (revived st))
        (st\<lparr>revived := revived st @ [RevPromise idx PWaiting]\<rparr>))"
      by (rule sinks_ok_register) (simp_all add: entered_def)
    then show ?thesis by (simp add: Let_def)
  qed
next
  case (6 rv idx st)
  then show ?case by (simp add: Let_def sinks_ok_append)
qed (auto split: prod.splits sum.splits)

lemma sinks_ok_unflatten_result:
  "sinks_ok f st \<Longrightarrow> unflatten rv p st = (r, new) \<Longrightarrow> sinks_ok f new"
  using sinks_ok_unflatten(1) [of f st rv p] by simp

lemma sinks_ok_recurse_json:
  "sinks_ok f st \<Longrightarrow> recurse_json rv x st = (r, new) \<Longrightarrow> sinks_ok f new"
  by (auto simp: recurse_json_def split: option.splits dest: sinks_ok_unflatten_result)

lemma sinks_ok_recurse_text:
  "sinks_ok f st \<Longrightarrow> recurse_text tc rv x st = (r, new) \<Longrightarrow> sinks_ok f new"
  by (auto simp: recurse_text_def split: sum.splits dest: sinks_ok_unflatten_result)

lemma sinks_ok_dispatch_result:
  "sinks_ok f st \<Longrightarrow> dispatch f idx status v st = (r, new) \<Longrightarrow> sinks_ok f new"
  using sinks_ok_dispatch [of f st idx status v] by simp

lemma sinks_ok_pump_turn:
  assumes "sinks_ok f st" and "pump_turn f tc rv chunk st = (r, new)"
  shows "sinks_ok f new"
proof (cases f)
  case JsonArray
  show ?thesis
  proof (cases "header_json tc chunk")
    case (Inl e)
    with assms JsonArray show ?thesis by (simp add: pump_turn_def)
  next
    case (Inr hd)
    obtain idx status flattened where hd: "hd = (idx, status, flattened)" by (cases hd)
    show ?thesis
    proof (cases "em_get idx (enqueueMap st)")
      case None
      with assms JsonArray Inr hd show ?thesis by (simp add: pump_turn_def)
    next
      case (Some h)
      obtain res st1 where rj: "recurse_json rv flattened st = (res, st1)"
        by (cases "recurse_json rv flattened st")
      with assms(1) have ok1: "sinks_ok f st1" by (rule sinks_ok_recurse_json)
      show ?thesis
      proof (cases res)
        case (Inl e)
        with assms JsonArray Inr hd Some rj ok1 show ?thesis by (simp add: pump_turn_def)
      next
        case v: (Inr v)
        show ?thesis
        proof (cases "enqueue f h (Frame status v) st1")
          case (Inl e)
          with assms JsonArray Inr hd Some rj ok1 v show ?thesis by (simp add: pump_turn_def)
        next
          case st2: (Inr st2)
          with ok1 have "sinks_ok f st2" by (rule sinks_ok_enqueue)
          with assms JsonArray Inr hd Some rj v st2 show ?thesis by (simp add: pump_turn_def)
        qed
      qed
    qed
  qed
next
  case Delimited
  show ?thesis
  proof (cases "header_delimited chunk")
    case (Inl e)
    with assms Delimited show ?thesis by (simp add: pump_turn_def)
  next
    case (Inr hd)
    obtain idx status str where hd: "hd = (idx, status, str)" by (cases hd)
    obtain res st1 where rt: "recurse_text tc rv (Some str) st = (res, st1)"
      by (cases "recurse_text tc rv (Some str) st")
    with assms(1) have ok1: "sinks_ok f st1" by (rule sinks_ok_recurse_text)
    show ?thesis
    proof (cases res)
      case (Inl e)
      with assms Delimited Inr hd rt ok1 show ?thesis by (simp add: pump_turn_def)
    next
      case v: (Inr v)
      with assms Delimited Inr hd rt have "dispatch f idx status v st1 = (r, new)"
        by (simp add: pump_turn_def)
      with ok1 show ?thesis by (rule sinks_ok_dispatch_result)
    qed
  qed
qed

lemma sinks_ok_pump_catch: "sinks_ok f st \<Longrightarrow> sinks_ok f (pump_catch f e st)"
  by (cases f) (simp_all add: pump_catch_def sinks_ok_pumping sinks_ok_enqueue_all)

lemma sinks_ok_pump_chunk:
  assumes "sinks_ok f st"
  shows "sinks_ok f (pump_chunk f tc rv chunk st)"
proof -
  obtain r st1 where t: "pump_turn f tc rv chunk st = (r, st1)"
    by (cases "pump_turn f tc rv chunk st")
  with assms have "sinks_ok f st1" by (rule sinks_ok_pump_turn)
  with t show ?thesis
    by (cases r) (simp_all add: pump_chunk_def sinks_ok_pump_catch)
qed

lemma sinks_ok_pump_end:
  assumes "sinks_ok f st"
  shows "sinks_ok f (pump_end f st)"
proof (cases f)
  case JsonArray
  obtain r st1 where t: "enqueue_all f StreamInterruptedMalformed st = (r, st1)"
    by (cases "enqueue_all f StreamInterruptedMalformed st")
  with sinks_ok_enqueue_all [OF assms, of StreamInterruptedMalformed]
  have "sinks_ok f st1" by simp
  with t JsonArray show ?thesis
    by (cases r) (simp_all add: pump_end_def sinks_ok_pumping sinks_ok_pump_catch)
next
  case Delimited
  with assms show ?thesis by (simp add: pump_end_def sinks_ok_pumping)
qed

lemma sinks_ok_decoder0: "sinks_ok f decoder0"
  by (simp add: sinks_ok_def decoder0_def)

lemma sinks_ok_parseAsync: "sinks_ok f (snd (parseAsync f tc rv head))"
proof (cases f)
  case JsonArray
  show ?thesis
  proof (cases "JSON_parse_js tc (head_value head)")
    case (Inl e)
    then show ?thesis by (simp add: JsonArray parseAsync_def sinks_ok_decoder0)
  next
    case (Inr parsed)
    obtain r st1 where t: "recurse_json rv (Some parsed) decoder0 = (r, st1)"
      by (cases "recurse_json rv (Some parsed) decoder0")
    with sinks_ok_decoder0 have "sinks_ok f st1" by (rule sinks_ok_recurse_json)
    with Inr t show ?thesis
      by (cases r) (simp_all add: JsonArray parseAsync_def sinks_ok_pumping)
  qed
next
  case Delimited
  have "sinks_ok f (decoder0\<lparr>pumping := \<not> head_done head\<rparr>)"
    by (simp add: sinks_ok_pumping sinks_ok_decoder0)
  then show ?thesis
    by (cases "recurse_text tc rv (head_value head) (decoder0\<lparr>pumping := \<not> head_done head\<rparr>)")
      (auto simp: Delimited parseAsync_def dest: sinks_ok_recurse_text)
qed

lemma sinks_ok_dstep:
  assumes "sinks_ok f st" and "dstep f tc rv ev st = Some new"
  shows "sinks_ok f new"
proof (cases ev)
  case (Chunk c)
  with assms show ?thesis by (auto simp: dstep_def sinks_ok_pump_chunk split: if_splits)
next
  case End
  with assms show ?thesis by (auto simp: dstep_def sinks_ok_pump_end split: if_splits)
next
  case (Pull h)
  with assms(2) have "pull f h st = Some new" by (simp add: dstep_def)
  with assms(1) show ?thesis by (rule sinks_ok_pull)
next
  case (Cancelled h)
  with assms(2) have "cancelled h st = Some new" by (simp add: dstep_def)
  with assms(1) show ?thesis by (rule sinks_ok_cancelled)
qed

lemma sinks_ok_drun:
  "sinks_ok f st \<Longrightarrow> drun f tc rv evs st = Some new \<Longrightarrow> sinks_ok f new"
proof (induction evs arbitrary: st)
  case Nil
  then show ?case by simp
next
  case (Cons ev evs)
  from Cons.prems(2) obtain st1 where 1: "dstep f tc rv ev st = Some st1"
    and 2: "drun f tc rv evs st1 = Some new"
    by (auto split: option.splits)
  from Cons.prems(1) 1 have "sinks_ok f st1" by (rule sinks_ok_dstep)
  then show ?case using 2 by (rule Cons.IH)
qed

text \<open>
  Every state the decoder reaches, whatever chunks arrive, whenever the consumer pulls and
  whenever a \<^verbatim>\<open>reader.cancel()\<close> settles, has its sinks in order.
\<close>

lemma sinks_ok_reachable:
  "drun f tc rv evs (snd (parseAsync f tc rv head)) = Some st \<Longrightarrow> sinks_ok f st"
  using sinks_ok_parseAsync by (rule sinks_ok_drun)

text \<open>In \<open>JsonArray\<close> the stream of every sink in \<^verbatim>\<open>enqueueMap\<close> is open.\<close>

lemma sinks_ok_json_open:
  "sinks_ok JsonArray st \<Longrightarrow> (k, h) \<in> set (enqueueMap st) \<Longrightarrow> sink_open st h"
  by (auto simp: sink_open_def entered_def dest!: sinks_okD split: revived.splits)

lemma reached_all:
  "list_all (sink_open st) (map snd (enqueueMap st)) \<Longrightarrow> reached st = map snd (enqueueMap st)"
  by (simp add: reached_def list_all_iff)

lemma reached_json: "sinks_ok JsonArray st \<Longrightarrow> reached st = map snd (enqueueMap st)"
  by (rule reached_all) (auto simp: list_all_iff dest: sinks_ok_json_open)

section \<open>A chunk with a malformed header (C7)\<close>

lemma enqueue_open:
  assumes "sink_open st h"
  shows "\<exists>new. enqueue f h m st = Inr new \<and>
    revived new = (revived st)[h := receive f m (revived st ! h)] \<and>
    pumping new = pumping st"
proof (cases "revived st ! h")
  case (RevPromise idx s)
  with assms show ?thesis
    by (cases f) (auto simp: sink_open_def enqueue_def)
next
  case (RevIterable idx s q rs)
  with assms have "s = IterReading \<or> s = IterIdle" and "h < length (revived st)"
    by (simp_all add: sink_open_def)
  with RevIterable show ?thesis
    by (cases f) (auto simp: enqueue_def iter_read_def split: prod.splits)
qed

lemma enqueue_closed: "\<not> sink_open st h \<Longrightarrow> enqueue f h m st = Inl InvalidState"
  by (auto simp: sink_open_def enqueue_def split: revived.splits promise_state.splits
      iter_state.splits)

lemma sink_open_other:
  "revived new = (revived st)[h := r] \<Longrightarrow> h' \<noteq> h \<Longrightarrow> sink_open new h' = sink_open st h'"
  by (simp add: sink_open_def)

text \<open>
  A loop over the sinks \<open>hs\<close> serves those in front of the first closed one, and no other
  revived object changes.
\<close>

lemma enqueue_each_reached:
  assumes "distinct hs"
  shows "pumping (snd (enqueue_each f m hs st)) = pumping st \<and>
    (\<forall>h. revived (snd (enqueue_each f m hs st)) ! h =
       (if h \<in> set (takeWhile (sink_open st) hs) then receive f m (revived st ! h)
        else revived st ! h)) \<and>
    (fst (enqueue_each f m hs st) = Inr ()) = list_all (sink_open st) hs"
  using assms
proof (induction hs arbitrary: st)
  case Nil
  then show ?case by simp
next
  case (Cons h0 hs)
  show ?case
  proof (cases "sink_open st h0")
    case False
    then show ?thesis by (simp add: enqueue_closed)
  next
    case True
    from enqueue_open [OF True, of f m] obtain new where
      e: "enqueue f h0 m st = Inr new"
      and r: "revived new = (revived st)[h0 := receive f m (revived st ! h0)]"
      and p: "pumping new = pumping st"
      by blast
    from True have lt: "h0 < length (revived st)" by (simp add: sink_open_def)
    from Cons.prems have d: "distinct hs" and n: "h0 \<notin> set hs" by simp_all
    have same: "sink_open new x = sink_open st x" if "x \<in> set hs" for x
    proof -
      from that n have "x \<noteq> h0" by auto
      with r show ?thesis by (rule sink_open_other)
    qed
    then have tw: "takeWhile (sink_open new) hs = takeWhile (sink_open st) hs"
      by (intro takeWhile_cong [OF refl])
    from same have la: "list_all (sink_open new) hs = list_all (sink_open st) hs"
      by (simp add: list_all_iff)
    from Cons.IH [OF d, of new]
    have ih: "pumping (snd (enqueue_each f m hs new)) = pumping new"
      "\<And>h. revived (snd (enqueue_each f m hs new)) ! h =
         (if h \<in> set (takeWhile (sink_open new) hs) then receive f m (revived new ! h)
          else revived new ! h)"
      "(fst (enqueue_each f m hs new) = Inr ()) = list_all (sink_open new) hs"
      by simp_all
    have "revived (snd (enqueue_each f m hs new)) ! h =
        (if h \<in> set (takeWhile (sink_open st) (h0 # hs)) then receive f m (revived st ! h)
         else revived st ! h)" for h
    proof (cases "h = h0")
      case True
      with n have "h \<notin> set (takeWhile (sink_open st) hs)"
        by (auto dest: set_takeWhileD)
      with ih(2) [of h] tw \<open>sink_open st h0\<close> True r lt show ?thesis by simp
    next
      case False
      with ih(2) [of h] tw \<open>sink_open st h0\<close> r show ?thesis by simp
    qed
    with e p ih(1,3) la True show ?thesis by simp
  qed
qed

lemma enqueue_all_reached:
  assumes "sinks_ok f st"
  shows "pumping (snd (enqueue_all f' e st)) = pumping st"
    and "h \<in> set (reached st) \<Longrightarrow>
      revived (snd (enqueue_all f' e st)) ! h = receive f' (Err e) (revived st ! h)"
    and "h \<notin> set (reached st) \<Longrightarrow> revived (snd (enqueue_all f' e st)) ! h = revived st ! h"
    and "(fst (enqueue_all f' e st) = Inr ()) = list_all (sink_open st) (map snd (enqueueMap st))"
  using enqueue_each_reached [OF sinks_ok_distinct_handles [OF assms], of f' "Err e" st]
  by (simp_all add: enqueue_all_def reached_def)














lemmas pump_defs =
  pump_chunk_def pump_turn_def pump_catch_def pump_end_def header_json_def
  header_delimited_def JSON_parse_js_def elements_def at_def assertNumber_def typeof_def
  asNumberOrThrow_def is_digit_def parseInt_def to_number_exact slice_def slice_from_def
  slice_bound_def enqueue_all_def enqueue_def dispatch_def em_get_def em_delete_def em_set_def
  promise_outcome_def iter_outcome_def iter_read_def recurse_json_def recurse_text_def
  registerAsync_def cancelled_def





text \<open>
  In \<open>Delimited\<close> a closed sink that is still in \<^verbatim>\<open>enqueueMap\<close> keeps the error from the
  sinks behind it. The decoder of two Promises has had the frame of the first, whose reviver
  is at \<^verbatim>\<open>await reader.cancel()\<close>, when the chunk \<^verbatim>\<open>x\<close> arrives. The handler of the pump
  calls \<^verbatim>\<open>enqueue\<close> on the closed stream of the first Promise, which throws: the second
  Promise receives nothing, and stays pending when the first has settled. A second frame
  for the first Promise, arriving in its place, does the same: the turn of the pump throws at
  \<^verbatim>\<open>enqueue\<close>, and the handler after it.
\<close>

lemma closed_sink_stops_the_handler:
  "two_sinks =
     \<lparr>enqueueMap = [(1, 0), (2, 1)],
      revived = [RevPromise 1 PWaiting, RevPromise 2 PWaiting], pumping = True\<rparr> \<and>
   one_closing =
     \<lparr>enqueueMap = [(1, 0), (2, 1)],
      revived = [RevPromise 1 (PClosing (PFulfilled (DNum 1))), RevPromise 2 PWaiting],
      pumping = True\<rparr> \<and>
   reached one_closing = [] \<and>
   drun Delimited sample_codec [] [Chunk ''x''] one_closing =
     Some \<lparr>enqueueMap = [(1, 0), (2, 1)],
       revived = [RevPromise 1 (PClosing (PFulfilled (DNum 1))), RevPromise 2 PWaiting],
       pumping = False\<rparr> \<and>
   drun Delimited sample_codec [] [Chunk ''x'', Cancelled 0] one_closing =
     Some \<lparr>enqueueMap = [(2, 1)],
       revived = [RevPromise 1 (PFulfilled (DNum 1)), RevPromise 2 PWaiting],
       pumping = False\<rparr> \<and>
   pump_turn Delimited sample_codec [] ''1:0:[1]'' one_closing = (Inl InvalidState, one_closing) \<and>
   drun Delimited sample_codec [] [Chunk ''1:0:[1]''] one_closing =
     Some \<lparr>enqueueMap = [(1, 0), (2, 1)],
       revived = [RevPromise 1 (PClosing (PFulfilled (DNum 1))), RevPromise 2 PWaiting],
       pumping = False\<rparr>"
proof -
  have 1: "two_sinks =
     \<lparr>enqueueMap = [(1, 0), (2, 1)],
      revived = [RevPromise 1 PWaiting, RevPromise 2 PWaiting], pumping = True\<rparr>"
    by (simp add: two_sinks_def parseAsync_def decoder0_def pump_defs sample_defs)
  have 2: "one_closing =
     \<lparr>enqueueMap = [(1, 0), (2, 1)],
      revived = [RevPromise 1 (PClosing (PFulfilled (DNum 1))), RevPromise 2 PWaiting],
      pumping = True\<rparr>"
    by (simp add: one_closing_def 1 pump_defs sample_defs PROMISE_STATUS_FULFILLED_def)
  show ?thesis
    by (simp add: 1 2 [unfolded 1] reached_def sink_open_def dstep_def pump_defs sample_defs)
qed

section \<open>The frames of a producer (C4, C2)\<close>

lemmas producer_defs =
  resume_def promise_producer_def promise_catch_def promise_frame_def seq_producer_def
  seq_catch_def seq_final_def gen_next_def yielded_def awaiting_def producer_frames_def
  final_next_def

lemma producer_run_Pending:
  "awaiting g \<Longrightarrow> resume f tc opts idx g st = ((g', np'), st') \<Longrightarrow>
   producer_run f tc opts idx g Pending st = producer_run f tc opts idx g' np' st'"
  by (simp add: producer_run.simps [of _ _ _ _ g Pending])

lemma producer_run_done:
  "res_done r \<Longrightarrow>
   producer_run f tc opts idx g (Resolved r) st = ((yielded f r, g, Resolved r), st)"
  by (simp add: producer_run.simps [of _ _ _ _ g "Resolved r"])

lemma producer_run_Rejected:
  "producer_run f tc opts idx g (Rejected e) st = (([], g, Rejected e), st)"
  by (simp add: producer_run.simps [of _ _ _ _ g "Rejected e"])

lemma producer_run_final_yield:
  "producer_run JsonArray tc opts idx (AtFinalYield k)
     (Resolved (IterResult (Some fr) False)) st =
   (([fr], Completed, Resolved (IterResult None True)),
    (case k of KPromise \<Rightarrow> st | KSeq \<Rightarrow> finally_return idx st))"
  by (cases k)
    (simp_all add: producer_run.simps [of _ _ _ _ _ "Resolved (IterResult (Some fr) False)"]
      gen_next_def producer_run_done yielded_def)

text \<open>A Promise producer that has its frame hands it over and ends.\<close>

lemma producer_run_promise_frame:
  "promise_frame f fr = (g, np) \<Longrightarrow>
   producer_run f tc opts idx g np st = (([fr], Completed, final_next f fr), st)"
  by (cases f)
    (auto simp: promise_frame_def final_next_def producer_run_final_yield producer_run_done
      yielded_def)

lemma producer_run_promise_catch:
  "promise_catch f tc opts idx cause st = ((g, np), st') \<Longrightarrow>
   producer_run f tc opts idx g np st' =
     (case safeCause tc opts cause st of
        (Inr t, st'') \<Rightarrow>
          (([(idx, PROMISE_STATUS_REJECTED, t)], Completed,
            final_next f (idx, PROMISE_STATUS_REJECTED, t)), st'')
      | (Inl e, st'') \<Rightarrow> (([], Completed, Rejected e), st''))"
  by (auto simp: promise_catch_def producer_run_Rejected
      split: prod.splits sum.splits dest: producer_run_promise_frame)

lemma producer_run_fulfilled:
  "producer_run f tc opts idx (AwaitPromise (Fulfill v)) Pending st =
     (case recurse tc opts v st of
        (Inr t, st') \<Rightarrow>
          (([(idx, PROMISE_STATUS_FULFILLED, t)], Completed,
            final_next f (idx, PROMISE_STATUS_FULFILLED, t)), st')
      | (Inl err, st1) \<Rightarrow>
          (case safeCause tc opts err st1 of
             (Inr t, st') \<Rightarrow>
               (([(idx, PROMISE_STATUS_REJECTED, t)], Completed,
                 final_next f (idx, PROMISE_STATUS_REJECTED, t)), st')
           | (Inl e, st') \<Rightarrow> (([], Completed, Rejected e), st')))"
proof (cases "recurse tc opts v st")
  case (Pair res st1)
  obtain g np st' where r: "resume f tc opts idx (AwaitPromise (Fulfill v)) st = ((g, np), st')"
    by (metis surj_pair)
  then have run: "producer_run f tc opts idx (AwaitPromise (Fulfill v)) Pending st =
      producer_run f tc opts idx g np st'"
    by (intro producer_run_Pending) (simp_all add: awaiting_def)
  show ?thesis
  proof (cases res)
    case (Inr t)
    with Pair r have "promise_frame f (idx, PROMISE_STATUS_FULFILLED, t) = (g, np)" "st' = st1"
      by (simp_all add: resume_def promise_producer_def)
    with run Pair Inr show ?thesis by (simp add: producer_run_promise_frame)
  next
    case (Inl err)
    with Pair r have "promise_catch f tc opts idx err st1 = ((g, np), st')"
      by (simp add: resume_def promise_producer_def)
    from producer_run_promise_catch [OF this] run Pair Inl show ?thesis by simp
  qed
qed

lemma producer_run_rejected:
  "producer_run f tc opts idx (AwaitPromise (Reject cause)) Pending st =
     (case safeCause tc opts cause st of
        (Inr t, st') \<Rightarrow>
          (([(idx, PROMISE_STATUS_REJECTED, t)], Completed,
            final_next f (idx, PROMISE_STATUS_REJECTED, t)), st')
      | (Inl e, st') \<Rightarrow> (([], Completed, Rejected e), st'))"
proof -
  obtain g np st' where r: "resume f tc opts idx (AwaitPromise (Reject cause)) st = ((g, np), st')"
    by (metis surj_pair)
  then have run: "producer_run f tc opts idx (AwaitPromise (Reject cause)) Pending st =
      producer_run f tc opts idx g np st'"
    by (intro producer_run_Pending) (simp_all add: awaiting_def)
  from r have "promise_catch f tc opts idx cause st = ((g, np), st')"
    by (simp add: resume_def promise_producer_def)
  from producer_run_promise_catch [OF this] run show ?thesis by simp
qed

lemma producer_run_thenable:
  "producer_run f tc opts idx (Throwing x) Pending st = (([], Completed, Rejected x), st)"
  by (simp add: producer_run.simps [of _ _ _ _ "Throwing x" Pending] awaiting_def resume_def
      producer_run_Rejected)

lemma ended_final_next: "ended (Completed, final_next f fr)"
  by (simp add: ended_def final_next_def)

text \<open>
  C4, as the code has it. The producer of a Promise (an object with \<^verbatim>\<open>then\<close> and
  \<^verbatim>\<open>catch\<close>) hands over, once the Promise has settled,
  \<^item> the one frame \<open>(id, FULFILLED, encoding)\<close> when the Promise is fulfilled with a value
    that encodes;
  \<^item> the one frame \<open>(id, REJECTED, safeCause(err))\<close> when it is fulfilled with a value whose
    encoding throws \<open>err\<close>, and \<^verbatim>\<open>safeCause\<close> returns for \<open>err\<close>;
  \<^item> the one frame \<open>(id, REJECTED, safeCause(cause))\<close> when it is rejected with \<open>cause\<close>,
    and \<^verbatim>\<open>safeCause\<close> returns for \<open>cause\<close>;
  \<^item> no frame when \<^verbatim>\<open>safeCause\<close> throws: the \<^verbatim>\<open>next()\<close> of the producer is rejected
    with what it threw;
  and in each case the generator has then finished, its last \<^verbatim>\<open>next()\<close> being done or
  rejected. The producer of a thenable without \<^verbatim>\<open>catch\<close> hands over no frame: its first
  \<^verbatim>\<open>next()\<close> is rejected with the TypeError of the call \<^verbatim>\<open>v.catch(...)\<close>. No producer
  of the Promise reducer hands over more than one frame, and each ends. This holds in both
  variants.
\<close>

theorem promise_producer_one_frame:
  "(recurse tc opts v st = (Inr t, st') \<longrightarrow>
      producer_run f tc opts idx (AwaitPromise (Fulfill v)) Pending st =
        (([(idx, PROMISE_STATUS_FULFILLED, t)], Completed,
          final_next f (idx, PROMISE_STATUS_FULFILLED, t)), st')) \<and>
   (recurse tc opts v st = (Inl err, st1) \<and> safeCause tc opts err st1 = (Inr t, st') \<longrightarrow>
      producer_run f tc opts idx (AwaitPromise (Fulfill v)) Pending st =
        (([(idx, PROMISE_STATUS_REJECTED, t)], Completed,
          final_next f (idx, PROMISE_STATUS_REJECTED, t)), st')) \<and>
   (safeCause tc opts cause st = (Inr t, st') \<longrightarrow>
      producer_run f tc opts idx (AwaitPromise (Reject cause)) Pending st =
        (([(idx, PROMISE_STATUS_REJECTED, t)], Completed,
          final_next f (idx, PROMISE_STATUS_REJECTED, t)), st')) \<and>
   (recurse tc opts v st = (Inl err, st1) \<and> safeCause tc opts err st1 = (Inl e, st') \<longrightarrow>
      producer_run f tc opts idx (AwaitPromise (Fulfill v)) Pending st =
        (([], Completed, Rejected e), st')) \<and>
   (safeCause tc opts cause st = (Inl e, st') \<longrightarrow>
      producer_run f tc opts idx (AwaitPromise (Reject cause)) Pending st =
        (([], Completed, Rejected e), st')) \<and>
   producer_run f tc opts idx (Throwing x) Pending st = (([], Completed, Rejected x), st) \<and>
   (g = AwaitPromise s \<or> g = Throwing x \<longrightarrow>
      length (fst (fst (producer_run f tc opts idx g Pending st))) \<le> 1 \<and>
      ended (snd (fst (producer_run f tc opts idx g Pending st))) \<and>
      length (fst (producer_frames f tc opts idx g st)) \<le> 1)"
proof (intro conjI impI)
  assume "g = AwaitPromise s \<or> g = Throwing x"
  then have "length (fst (fst (producer_run f tc opts idx g Pending st))) \<le> 1 \<and>
      ended (snd (fst (producer_run f tc opts idx g Pending st)))"
    by (cases s)
      (auto simp: producer_run_fulfilled producer_run_rejected producer_run_thenable
        ended_def final_next_def split: prod.splits sum.splits)
  then show "length (fst (fst (producer_run f tc opts idx g Pending st))) \<le> 1"
    and "ended (snd (fst (producer_run f tc opts idx g Pending st)))"
    by simp_all
  then show "length (fst (producer_frames f tc opts idx g st)) \<le> 1"
    by (cases "producer_run f tc opts idx g Pending st") (auto simp: producer_frames_def)
qed (simp_all add: producer_run_fulfilled producer_run_rejected producer_run_thenable)

lemma recurse_sample_number:
  "recurse sample_codec opts (VNum 2) st = (Inr ''[2]'', st)"
  by (simp add: recurse_def sample_defs dec.simps)

lemma safeCause_sample_number:
  "safeCause sample_codec opts (VNum 2) st = (Inr ''[2]'', st)"
  by (simp add: safeCause_def recurse_sample_number)

lemma recurse_unencodable:
  "tag \<notin> set (revivers opts) \<Longrightarrow>
   recurse tc opts (VObject tag v) st = (Inl DevalueError, st)"
  by (simp add: recurse_def)

lemma safeCause_unencodable:
  "safeCause sample_codec no_options sample_error st = (Inl DevalueError, st) \<and>
   safeCause sample_codec no_options DevalueError st = (Inl DevalueError, st) \<and>
   safeCause sample_codec coercing_options DevalueError st = (Inr ''[0]'', st)"
  by (simp add: safeCause_def recurse_unencodable sample_error_def DevalueError_def
      no_options_def coercing_options_def recurse_def sample_codec_def sample_render_def
      text_number_def dec.simps digit_def)

theorem promise_producer_one_frame_witness:
  "recurse sample_codec no_options (VNum 2) (stringifyAsync (VNum 0)) =
     (Inr ''[2]'', stringifyAsync (VNum 0)) \<and>
   producer_run JsonArray sample_codec no_options 1 (AwaitPromise (Fulfill (VNum 2))) Pending
       (stringifyAsync (VNum 0)) =
     (([(1, 0, ''[2]'')], Completed, Resolved (IterResult None True)),
      stringifyAsync (VNum 0)) \<and>
   safeCause sample_codec no_options (VNum 2) (stringifyAsync (VNum 0)) =
     (Inr ''[2]'', stringifyAsync (VNum 0)) \<and>
   producer_run Delimited sample_codec no_options 1 (AwaitPromise (Reject (VNum 2))) Pending
       (stringifyAsync (VNum 0)) =
     (([(1, 1, ''[2]'')], Completed, Resolved (IterResult (Some (1, 1, ''[2]'')) True)),
      stringifyAsync (VNum 0)) \<and>
   recurse sample_codec coercing_options sample_error (stringifyAsync (VNum 0)) =
     (Inl DevalueError, stringifyAsync (VNum 0)) \<and>
   safeCause sample_codec coercing_options DevalueError (stringifyAsync (VNum 0)) =
     (Inr ''[0]'', stringifyAsync (VNum 0)) \<and>
   producer_run JsonArray sample_codec coercing_options 1 (AwaitPromise (Fulfill sample_error))
       Pending (stringifyAsync (VNum 0)) =
     (([(1, 1, ''[0]'')], Completed, Resolved (IterResult None True)),
      stringifyAsync (VNum 0)) \<and>
   recurse sample_codec no_options sample_error (stringifyAsync (VNum 0)) =
     (Inl DevalueError, stringifyAsync (VNum 0)) \<and>
   safeCause sample_codec no_options DevalueError (stringifyAsync (VNum 0)) =
     (Inl DevalueError, stringifyAsync (VNum 0)) \<and>
   producer_run Delimited sample_codec no_options 1 (AwaitPromise (Fulfill sample_error))
       Pending (stringifyAsync (VNum 0)) =
     (([], Completed, Rejected DevalueError), stringifyAsync (VNum 0)) \<and>
   safeCause sample_codec no_options sample_error (stringifyAsync (VNum 0)) =
     (Inl DevalueError, stringifyAsync (VNum 0)) \<and>
   producer_run Delimited sample_codec no_options 1 (AwaitPromise (Reject sample_error))
       Pending (stringifyAsync (VNum 0)) =
     (([], Completed, Rejected DevalueError), stringifyAsync (VNum 0)) \<and>
   length (fst (producer_frames JsonArray sample_codec no_options 1
     (AwaitPromise (Fulfill (VNum 2))) (stringifyAsync (VNum 0)))) \<le> 1 \<and>
   ended (snd (fst (producer_run JsonArray sample_codec no_options 1
     (AwaitPromise (Fulfill (VNum 2))) Pending (stringifyAsync (VNum 0)))))"
proof -
  let ?st = "stringifyAsync (VNum 0)"
  have a: "recurse sample_codec no_options (VNum 2) ?st = (Inr ''[2]'', ?st)"
    by (rule recurse_sample_number)
  have b: "safeCause sample_codec no_options (VNum 2) ?st = (Inr ''[2]'', ?st)"
    by (rule safeCause_sample_number)
  have c: "recurse sample_codec coercing_options sample_error ?st = (Inl DevalueError, ?st)"
    by (simp add: recurse_unencodable sample_error_def coercing_options_def)
  have d: "safeCause sample_codec coercing_options DevalueError ?st = (Inr ''[0]'', ?st)"
    by (simp add: safeCause_unencodable)
  have e: "recurse sample_codec no_options sample_error ?st = (Inl DevalueError, ?st)"
    by (simp add: recurse_unencodable sample_error_def no_options_def)
  have g: "safeCause sample_codec no_options DevalueError ?st = (Inl DevalueError, ?st)"
    by (simp add: safeCause_unencodable)
  have h: "safeCause sample_codec no_options sample_error ?st = (Inl DevalueError, ?st)"
    by (simp add: safeCause_unencodable)
  note json = promise_producer_one_frame [where f = JsonArray and tc = sample_codec
      and idx = 1 and st = ?st]
  note delim = promise_producer_one_frame [where f = Delimited and tc = sample_codec
      and idx = 1 and st = ?st]
  from json [where opts = no_options and v = "VNum 2" and t = "''[2]''" and st' = ?st] a
  have 1: "producer_run JsonArray sample_codec no_options 1 (AwaitPromise (Fulfill (VNum 2)))
      Pending ?st = (([(1, 0, ''[2]'')], Completed, Resolved (IterResult None True)), ?st)"
    by (simp add: final_next_def PROMISE_STATUS_FULFILLED_def)
  from delim [where opts = no_options and cause = "VNum 2" and t = "''[2]''" and st' = ?st] b
  have 2: "producer_run Delimited sample_codec no_options 1 (AwaitPromise (Reject (VNum 2)))
      Pending ?st =
      (([(1, 1, ''[2]'')], Completed, Resolved (IterResult (Some (1, 1, ''[2]'')) True)), ?st)"
    by (simp add: final_next_def PROMISE_STATUS_REJECTED_def)
  from json [where opts = coercing_options and v = sample_error and err = DevalueError
      and ?st1.0 = ?st and t = "''[0]''" and st' = ?st] c d
  have 3: "producer_run JsonArray sample_codec coercing_options 1
      (AwaitPromise (Fulfill sample_error)) Pending ?st =
      (([(1, 1, ''[0]'')], Completed, Resolved (IterResult None True)), ?st)"
    by (simp add: final_next_def PROMISE_STATUS_REJECTED_def)
  from delim [where opts = no_options and v = sample_error and err = DevalueError
      and ?st1.0 = ?st and e = DevalueError and st' = ?st] e g
  have 4: "producer_run Delimited sample_codec no_options 1
      (AwaitPromise (Fulfill sample_error)) Pending ?st =
      (([], Completed, Rejected DevalueError), ?st)"
    by simp
  from delim [where opts = no_options and cause = sample_error and e = DevalueError
      and st' = ?st] h
  have 5: "producer_run Delimited sample_codec no_options 1
      (AwaitPromise (Reject sample_error)) Pending ?st =
      (([], Completed, Rejected DevalueError), ?st)"
    by simp
  from json [where opts = no_options and g = "AwaitPromise (Fulfill (VNum 2))"
      and s = "Fulfill (VNum 2)"]
  have 6: "length (fst (producer_frames JsonArray sample_codec no_options 1
      (AwaitPromise (Fulfill (VNum 2))) ?st)) \<le> 1"
    and 7: "ended (snd (fst (producer_run JsonArray sample_codec no_options 1
      (AwaitPromise (Fulfill (VNum 2))) Pending ?st)))"
    by simp_all
  from a b c d e g h 1 2 3 4 5 6 7 show ?thesis by (intro conjI)
qed

text \<open>
  C4 as the spec states it fails for a Promise that is fulfilled with a value that does
  not encode (\<open>sample_error\<close>, an \<^verbatim>\<open>Error\<close> for which no reducer is installed): its
  producer hands over a REJECTED frame when \<^verbatim>\<open>coerceError\<close> is set, and no frame at
  all when it is not; and for a thenable without \<^verbatim>\<open>catch\<close>, whose producer hands over
  no frame.
\<close>

theorem fulfilled_unencodable_counterexample:
  "producer_run JsonArray sample_codec coercing_options 1 (AwaitPromise (Fulfill sample_error))
       Pending (stringifyAsync (VNum 0)) =
     (([(1, 1, ''[0]'')], Completed, Resolved (IterResult None True)),
      stringifyAsync (VNum 0)) \<and>
   producer_run Delimited sample_codec coercing_options 1 (AwaitPromise (Fulfill sample_error))
       Pending (stringifyAsync (VNum 0)) =
     (([(1, 1, ''[0]'')], Completed, Resolved (IterResult (Some (1, 1, ''[0]'')) True)),
      stringifyAsync (VNum 0)) \<and>
   producer_run JsonArray sample_codec no_options 1 (AwaitPromise (Fulfill sample_error))
       Pending (stringifyAsync (VNum 0)) =
     (([], Completed, Rejected DevalueError), stringifyAsync (VNum 0)) \<and>
   producer_run Delimited sample_codec no_options 1 (AwaitPromise (Fulfill sample_error))
       Pending (stringifyAsync (VNum 0)) =
     (([], Completed, Rejected DevalueError), stringifyAsync (VNum 0)) \<and>
   flatten [] VThenable (stringifyAsync (VNum 0)) =
     (Inr (PPromise 1),
      \<lparr>counter = 1, buffer = [Entry 1 (Throwing NotAFunction) False Pending],
       control = NotStarted (VNum 0), registrations = [1], returned = [], emitted = []\<rparr>) \<and>
   producer_run JsonArray sample_codec no_options 1 (Throwing NotAFunction) Pending
       (stringifyAsync (VNum 0)) =
     (([], Completed, Rejected NotAFunction), stringifyAsync (VNum 0))"
proof -
  let ?st = "stringifyAsync (VNum 0)"
  have c: "recurse sample_codec coercing_options sample_error ?st = (Inl DevalueError, ?st)"
    by (simp add: recurse_unencodable sample_error_def coercing_options_def)
  have d: "safeCause sample_codec coercing_options DevalueError ?st = (Inr ''[0]'', ?st)"
    by (simp add: safeCause_unencodable)
  have e: "recurse sample_codec no_options sample_error ?st = (Inl DevalueError, ?st)"
    by (simp add: recurse_unencodable sample_error_def no_options_def)
  have g: "safeCause sample_codec no_options DevalueError ?st = (Inl DevalueError, ?st)"
    by (simp add: safeCause_unencodable)
  have 1: "producer_run f sample_codec coercing_options 1 (AwaitPromise (Fulfill sample_error))
      Pending ?st = (([(1, 1, ''[0]'')], Completed, final_next f (1, 1, ''[0]'')), ?st)" for f
    by (simp add: producer_run_fulfilled c d PROMISE_STATUS_REJECTED_def)
  have 2: "producer_run f sample_codec no_options 1 (AwaitPromise (Fulfill sample_error))
      Pending ?st = (([], Completed, Rejected DevalueError), ?st)" for f
    by (simp add: producer_run_fulfilled e g)
  have 3: "flatten [] VThenable ?st =
     (Inr (PPromise 1),
      \<lparr>counter = 1, buffer = [Entry 1 (Throwing NotAFunction) False Pending],
       control = NotStarted (VNum 0), registrations = [1], returned = [], emitted = []\<rparr>)"
    by (simp add: registerAsyncIterable_def stringifyAsync_def)
  have 4: "producer_run JsonArray sample_codec no_options 1 (Throwing NotAFunction) Pending ?st =
     (([], Completed, Rejected NotAFunction), ?st)"
    by (rule producer_run_thenable)
  from 1 [of JsonArray] 1 [of Delimited] 2 [of JsonArray] 2 [of Delimited] 3 4
  show ?thesis by (simp add: final_next_def)
qed

text \<open>
  C2, as the code has it. The status codes of a Promise (fulfilled 0, rejected 1) and the
  code of a yielded item (0) are the same in both variants. The two codes that end a
  sequence are not: \<open>JsonArray\<close> has RETURN = 2 and ERROR = 1, \<open>Delimited\<close> has RETURN = 1
  and ERROR = 2. A sequence producer whose source ends with a return value that encodes
  hands over one last frame with the RETURN code of its variant; one whose source throws a
  cause for which \<^verbatim>\<open>safeCause\<close> returns hands over one last frame with the ERROR code of
  its variant.
\<close>

theorem status_codes_by_variant:
  "PROMISE_STATUS_FULFILLED = 0 \<and> PROMISE_STATUS_REJECTED = 1 \<and>
   ASYNC_ITERABLE_STATUS_YIELD = 0 \<and>
   ASYNC_ITERABLE_STATUS_RETURN JsonArray = 2 \<and> ASYNC_ITERABLE_STATUS_ERROR JsonArray = 1 \<and>
   ASYNC_ITERABLE_STATUS_RETURN Delimited = 1 \<and> ASYNC_ITERABLE_STATUS_ERROR Delimited = 2 \<and>
   (recurse tc opts r st = (Inr t, st') \<longrightarrow>
      fst (producer_frames f tc opts idx (AwaitNext [] (Return r)) st) =
        [(idx, ASYNC_ITERABLE_STATUS_RETURN f, t)]) \<and>
   (safeCause tc opts cause st = (Inr t, st') \<longrightarrow>
      fst (producer_frames f tc opts idx (AwaitNext [] (Throw cause)) st) =
        [(idx, ASYNC_ITERABLE_STATUS_ERROR f, t)])"
proof (intro conjI impI)
  assume "recurse tc opts r st = (Inr t, st')"
  then show "fst (producer_frames f tc opts idx (AwaitNext [] (Return r)) st) =
      [(idx, ASYNC_ITERABLE_STATUS_RETURN f, t)]"
    by (cases f)
      (simp_all add: producer_run.simps [of _ _ _ _ "AwaitNext [] (Return r)" Pending]
        producer_run_final_yield producer_run_done producer_defs)
next
  assume "safeCause tc opts cause st = (Inr t, st')"
  then show "fst (producer_frames f tc opts idx (AwaitNext [] (Throw cause)) st) =
      [(idx, ASYNC_ITERABLE_STATUS_ERROR f, t)]"
    by (cases f)
      (simp_all add: producer_run.simps [of _ _ _ _ "AwaitNext [] (Throw cause)" Pending]
        producer_run_final_yield producer_run_done producer_defs)
qed (simp_all add: PROMISE_STATUS_FULFILLED_def PROMISE_STATUS_REJECTED_def
    ASYNC_ITERABLE_STATUS_YIELD_def ASYNC_ITERABLE_STATUS_RETURN_def
    ASYNC_ITERABLE_STATUS_ERROR_def)

theorem status_codes_by_variant_witness:
  "recurse sample_codec no_options (VNum 2) (stringifyAsync (VNum 0)) =
     (Inr ''[2]'', stringifyAsync (VNum 0)) \<and>
   safeCause sample_codec no_options (VNum 2) (stringifyAsync (VNum 0)) =
     (Inr ''[2]'', stringifyAsync (VNum 0)) \<and>
   fst (producer_frames JsonArray sample_codec no_options 1 (AwaitNext [] (Return (VNum 2)))
       (stringifyAsync (VNum 0))) = [(1, 2, ''[2]'')] \<and>
   fst (producer_frames Delimited sample_codec no_options 1 (AwaitNext [] (Throw (VNum 2)))
       (stringifyAsync (VNum 0))) = [(1, 2, ''[2]'')]"
  using
    status_codes_by_variant [of sample_codec no_options "VNum 2" "stringifyAsync (VNum 0)"
      "''[2]''" "stringifyAsync (VNum 0)" JsonArray 1 "VNum 2"]
    status_codes_by_variant [of sample_codec no_options "VNum 2" "stringifyAsync (VNum 0)"
      "''[2]''" "stringifyAsync (VNum 0)" Delimited 1 "VNum 2"]
  by (simp add: recurse_sample_number safeCause_sample_number PROMISE_STATUS_FULFILLED_def
      PROMISE_STATUS_REJECTED_def ASYNC_ITERABLE_STATUS_YIELD_def
      ASYNC_ITERABLE_STATUS_RETURN_def ASYNC_ITERABLE_STATUS_ERROR_def)

text \<open>
  C2 as the spec states it fails in \<open>Delimited\<close>: there RETURN is 1 and ERROR is 2, and
  the frame of a sequence that ends with the return value 2 carries the status 1.
\<close>

theorem status_codes_delimited_counterexample:
  "ASYNC_ITERABLE_STATUS_RETURN Delimited \<noteq> 2 \<and> ASYNC_ITERABLE_STATUS_ERROR Delimited \<noteq> 1 \<and>
   fst (producer_frames Delimited sample_codec no_options 1 (AwaitNext [] (Return (VNum 2)))
       (stringifyAsync (VNum 0))) = [(1, 1, ''[2]'')]"
  by (simp add: ASYNC_ITERABLE_STATUS_RETURN_def ASYNC_ITERABLE_STATUS_ERROR_def
      producer_run.simps [of _ _ _ _ "AwaitNext [] (Return (VNum 2))" Pending]
      producer_run_done producer_defs recurse_sample_number)

section \<open>Producer ids (C8)\<close>

lemma upt_glue: "a \<le> b \<Longrightarrow> b \<le> c \<Longrightarrow> [a..<b] @ [b..<c] = [a..<c]"
  by (metis le_Suc_ex upt_add_eq_append)

lemma grows_refl: "grows st st"
  by (simp add: grows_def)

lemma grows_trans:
  assumes "grows st st'" and "grows st' st''"
  shows "grows st st''"
proof -
  from assms have le: "counter st \<le> counter st'" "counter st' \<le> counter st''"
    by (simp_all add: grows_def)
  then have glue: "map Suc [counter st..<counter st'] @ map Suc [counter st'..<counter st''] =
      map Suc [counter st..<counter st'']"
    by (simp only: map_append [symmetric] upt_glue)
  from assms le show ?thesis
    by (simp add: grows_def glue)
qed

lemma grows_returned: "grows st (st\<lparr>returned := r\<rparr>)"
  by (simp add: grows_def)

lemma grows_finally_return: "grows st (finally_return idx st)"
  by (simp add: finally_return_def grows_def)

lemma registerAsyncIterable_grows:
  "registerAsyncIterable g st = (idx, st') \<Longrightarrow> grows st st'"
  by (auto simp: registerAsyncIterable_def grows_def Let_def)

lemma flatten_grows:
  "flatten rs v st = (r, st') \<Longrightarrow> grows st st'"
  "flatten_list rs vs st = (rl, st') \<Longrightarrow> grows st st'"
proof (induction rs v st and rs vs st arbitrary: r st' and rl st' rule: flatten_flatten_list.induct)
  case (1 rs n st)
  then show ?case by (auto simp: grows_refl)
next
  case (2 rs s st)
  then show ?case by (auto simp: grows_refl)
next
  case (3 rs vs st)
  then show ?case by (auto split: prod.splits sum.splits)
next
  case (4 rs tag v st)
  then show ?case by (auto simp: grows_refl split: prod.splits sum.splits if_splits)
next
  case (5 rs s st)
  then show ?case by (auto split: prod.splits dest: registerAsyncIterable_grows)
next
  case (6 rs st)
  then show ?case by (auto split: prod.splits dest: registerAsyncIterable_grows)
next
  case (7 rs xs fin st)
  then show ?case by (auto split: prod.splits dest: registerAsyncIterable_grows)
next
  case (8 rs st)
  then show ?case by (auto simp: grows_refl)
next
  case (9 rs v vs st)
  then show ?case
    by (auto split: prod.splits sum.splits intro: grows_trans)
qed

lemma recurse_grows: "recurse tc opts v st = (r, st') \<Longrightarrow> grows st st'"
  by (auto simp: recurse_def split: prod.splits sum.splits dest: flatten_grows(1))

lemma safeCause_grows: "safeCause tc opts cause st = (r, st') \<Longrightarrow> grows st st'"
  by (auto simp: safeCause_def split: prod.splits sum.splits option.splits
      dest: recurse_grows intro: grows_trans)

lemma promise_producer_grows:
  "promise_producer f tc opts idx s st = (x, st') \<Longrightarrow> grows st st'"
  by (auto simp: promise_producer_def promise_catch_def
      split: settle.splits prod.splits sum.splits
      dest: recurse_grows safeCause_grows intro: grows_trans)

lemma seq_final_grows: "seq_final f idx fr st = (x, st') \<Longrightarrow> grows st st'"
  by (auto simp: seq_final_def grows_refl grows_finally_return split: framing.splits)

lemma seq_catch_grows: "seq_catch f tc opts idx cause st = (x, st') \<Longrightarrow> grows st st'"
  by (auto simp: seq_catch_def split: prod.splits sum.splits
      dest!: safeCause_grows seq_final_grows
      intro: grows_trans grows_trans [OF _ grows_finally_return])

lemma seq_producer_grows:
  "seq_producer f tc opts idx xs fin st = (x, st') \<Longrightarrow> grows st st'"
  by (auto simp: seq_producer_def split: list.splits finish.splits prod.splits sum.splits
      dest!: recurse_grows seq_catch_grows seq_final_grows intro: grows_trans)

lemma resume_grows: "resume f tc opts idx g st = (x, st') \<Longrightarrow> grows st st'"
  by (auto simp: resume_def grows_refl split: gen.splits
      dest: promise_producer_grows seq_producer_grows)

lemma gen_next_grows: "gen_next idx g st = (x, st') \<Longrightarrow> grows st st'"
  by (auto simp: gen_next_def grows_refl grows_finally_return split: gen.splits kind.splits)

lemma gen_return_footprint:
  "gen_return e st = (e', st') \<Longrightarrow> eid e' = eid e \<and> (\<exists>r. st' = st\<lparr>returned := r\<rparr>)"
  by (auto simp: gen_return_def finally_return_def split: gen.splits kind.splits
      intro: exI [of _ "returned st"])

lemma return_all_footprint:
  "return_all es st = (es', st') \<Longrightarrow>
   map eid es' = map eid es \<and> (\<exists>r. st' = st\<lparr>returned := r\<rparr>)"
proof (induction es arbitrary: st es' st')
  case Nil
  then show ?case by (auto intro: exI [of _ "returned st"])
next
  case (Cons e es)
  from Cons.prems obtain e1 st1 es1 where
    1: "gen_return e st = (e1, st1)" and 2: "return_all es st1 = (es1, st')" and
    3: "es' = e1 # es1"
    by (auto split: prod.splits)
  from gen_return_footprint [OF 1] Cons.IH [OF 2] 3 show ?case
    by auto
qed

lemma ids_ok_returned [simp]: "ids_ok f (st\<lparr>returned := r\<rparr>) = ids_ok f st"
  by (simp add: ids_ok_def held_ok_def cong: control.case_cong framing.case_cong)

lemma ids_ok_emitted [simp]: "ids_ok f (st\<lparr>emitted := r\<rparr>) = ids_ok f st"
  by (simp add: ids_ok_def held_ok_def cong: control.case_cong framing.case_cong)

lemma ids_ok_grows:
  assumes "ids_ok f st" and "grows st st'"
  shows "ids_ok f st'"
proof -
  from assms(2) have le: "counter st \<le> counter st'"
    and c: "control st' = control st"
    and r: "registrations st' = registrations st @ map Suc [counter st..<counter st']"
    and b: "map eid (buffer st') = map eid (buffer st) @ map Suc [counter st..<counter st']"
    by (simp_all add: grows_def)
  from le have glue: "map Suc [0..<counter st] @ map Suc [counter st..<counter st'] =
      map Suc [0..<counter st']"
    by (simp only: map_append [symmetric] upt_glue le0)
  from assms(1) have "registrations st' = map Suc [0..<counter st']"
    by (simp add: ids_ok_def r glue)
  moreover from assms(1) have "distinct (map eid (buffer st'))"
    by (auto simp: ids_ok_def b distinct_map)
  moreover from assms(1) le have "set (map eid (buffer st')) \<subseteq> {1..counter st'}"
    by (auto simp: ids_ok_def b)
  moreover from assms(1) le have "held_ok f st'"
    by (auto simp: ids_ok_def held_ok_def c b split: control.splits framing.splits)
  ultimately show ?thesis by (simp add: ids_ok_def)
qed

lemma ids_ok_closed: "ids_ok f st \<Longrightarrow> ids_ok f (closed st)"
  by (auto simp: closed_def ids_ok_def held_ok_def split: control.splits option.splits)

lemma ids_ok_control:
  "ids_ok f st \<Longrightarrow> \<forall>e. c \<noteq> AtChunkYield e \<Longrightarrow> ids_ok f (st\<lparr>control := c\<rparr>)"
  by (auto simp: ids_ok_def held_ok_def split: control.splits)

lemma ids_ok_buffer_ids:
  "map eid b = map eid (buffer st) \<Longrightarrow> ids_ok f (st\<lparr>buffer := b\<rparr>) = ids_ok f st"
  by (simp add: ids_ok_def held_ok_def del: set_map cong: control.case_cong framing.case_cong)

lemma ids_ok_finally_block:
  assumes "ids_ok f (st\<lparr>control := Racing\<rparr>)"
  shows "ids_ok f (finally_block c st)"
proof -
  obtain es st' where ra: "return_all (buffer st) st = (es, st')"
    by (cases "return_all (buffer st) st")
  from return_all_footprint [OF ra] obtain r where
    ids: "map eid es = map eid (buffer st)" and st': "st' = st\<lparr>returned := r\<rparr>"
    by auto
  from assms ids have "ids_ok f (st'\<lparr>buffer := es, control := Closing c\<rparr>)"
    by (simp add: st' ids_ok_def held_ok_def)
  then show ?thesis
    by (simp add: finally_block_def ra ids_ok_closed)
qed

lemma ids_ok_loop_head:
  "ids_ok f (st\<lparr>control := Racing\<rparr>) \<Longrightarrow> ids_ok f (loop_head st)"
  by (simp add: loop_head_def ids_ok_finally_block)

lemma ids_ok_rearm:
  assumes "ids_ok f (st\<lparr>control := Racing\<rparr>)" and "1 \<le> eid e" and "eid e \<le> counter st"
    and "eid e \<notin> set (map eid (buffer st))"
  shows "ids_ok f ((rearm e st)\<lparr>control := Racing\<rparr>)"
proof -
  obtain g np st' where gn: "gen_next (eid e) (iterator e) st = ((g, np), st')"
    by (metis surj_pair)
  from gen_next_grows [OF gn] have g: "grows st st'" .
  then have "grows (st\<lparr>control := Racing\<rparr>) (st'\<lparr>control := Racing\<rparr>)"
    by (simp add: grows_def)
  from ids_ok_grows [OF assms(1) this] have ok: "ids_ok f (st'\<lparr>control := Racing\<rparr>)" .
  from g have b: "map eid (buffer st') = map eid (buffer st) @ map Suc [counter st..<counter st']"
    and le: "counter st \<le> counter st'"
    by (simp_all add: grows_def)
  from assms(3,4) have "eid e \<notin> set (map eid (buffer st'))"
    by (auto simp: b)
  with ok assms(2,3) le show ?thesis
    by (auto simp: rearm_def gn ids_ok_def held_ok_def)
qed

lemma find_eid: "find (\<lambda>e. eid e = i) es = Some e \<Longrightarrow> e \<in> set es \<and> eid e = i"
  by (induction es) (auto split: if_splits)

lemma distinct_delete_entry: "distinct (map eid es) \<Longrightarrow> distinct (map eid (delete_entry e es))"
  by (simp add: delete_entry_def distinct_map_filter)

lemma set_delete_entry: "eid ` set (delete_entry e es) = eid ` set es - {eid e}"
  by (auto simp: delete_entry_def)

lemma map_eid_replace:
  "eid e' = i \<Longrightarrow> map eid (map (\<lambda>x. if eid x = i then e' else x) es) = map eid es"
  by (induction es) auto

lemma ids_ok_step_next:
  assumes "ids_ok f st" and "step_next f tc opts st = Some st'"
  shows "ids_ok f st'"
proof (cases "control st")
  case (NotStarted v)
  obtain r st1 where rec: "recurse tc opts v st = (r, st1)"
    by (cases "recurse tc opts v st")
  from ids_ok_grows [OF assms(1) recurse_grows [OF rec]] have ok: "ids_ok f st1" .
  with assms(2) NotStarted rec show ?thesis
    by (cases r)
      (auto simp: step_next_def intro: ids_ok_finally_block ids_ok_control)
next
  case AtRootYield
  with assms show ?thesis
    by (auto simp: step_next_def intro: ids_ok_loop_head ids_ok_control)
next
  case (AtChunkYield e)
  from assms(1) AtChunkYield have range: "1 \<le> eid e" "eid e \<le> counter st"
    by (simp_all add: ids_ok_def held_ok_def)
  from assms(1) have core: "ids_ok f (st\<lparr>control := Racing\<rparr>)"
    by (simp add: ids_ok_control)
  show ?thesis
  proof (cases f)
    case JsonArray
    with assms(1) AtChunkYield have "eid e \<notin> set (map eid (buffer st))"
      by (simp add: ids_ok_def held_ok_def)
    from ids_ok_rearm [OF core range this]
    have "ids_ok f (loop_head (rearm e st))"
      by (rule ids_ok_loop_head)
    with assms(2) AtChunkYield JsonArray show ?thesis
      by (simp add: step_next_def)
  next
    case Delimited
    let ?st = "st\<lparr>buffer := delete_entry e (buffer st)\<rparr>"
    from core have core': "ids_ok f (?st\<lparr>control := Racing\<rparr>)"
      by (auto simp: ids_ok_def held_ok_def distinct_delete_entry set_delete_entry)
    have fresh: "eid e \<notin> set (map eid (buffer ?st))"
      by (simp add: set_delete_entry)
    from range have range': "1 \<le> eid e" "eid e \<le> counter ?st" by simp_all
    from ids_ok_rearm [OF core' range' fresh]
    have 1: "ids_ok f (loop_head (rearm e ?st))"
      by (rule ids_ok_loop_head)
    from core' have 2: "ids_ok f (loop_head ?st)"
      by (rule ids_ok_loop_head)
    from assms(2) AtChunkYield Delimited 1 2 show ?thesis
      by (auto simp: step_next_def Let_def split: next_promise.splits iter_result.splits
          bool.splits)
  qed
qed (use assms(2) in \<open>simp_all add: step_next_def\<close>)

lemma ids_ok_step_settle:
  assumes "ids_ok f st" and "step_settle f tc opts i st = Some st'"
  shows "ids_ok f st'"
proof -
  from assms(2) obtain e where e: "find (\<lambda>e. eid e = i) (buffer st) = Some e"
    by (auto simp: step_settle_def split: option.splits)
  obtain g np st1 where res: "resume f tc opts i (iterator e) st = ((g, np), st1)"
    by (metis surj_pair)
  obtain e' st2 where ret:
    "(if return_queued e then gen_return (Entry i g False np) st1
      else (Entry i g False np, st1)) = (e', st2)"
    by (metis surj_pair)
  from ret have id: "eid e' = i" and st2: "\<exists>r. st2 = st1\<lparr>returned := r\<rparr>"
    by (auto split: if_splits dest: gen_return_footprint intro: exI [of _ "returned st1"])
  from ids_ok_grows [OF assms(1) resume_grows [OF res]] st2 have ok: "ids_ok f st2"
    by auto
  let ?b = "map (\<lambda>x. if eid x = i then e' else x) (buffer st2)"
  have "map eid ?b = map eid (buffer st2)"
    using id by (rule map_eid_replace)
  with ok have "ids_ok f (st2\<lparr>buffer := ?b\<rparr>)"
    by (simp add: ids_ok_buffer_ids)
  then have "ids_ok f (closed (st2\<lparr>buffer := ?b\<rparr>))"
    by (rule ids_ok_closed)
  with assms(2) e res ret show ?thesis
    by (auto simp: step_settle_def split: if_splits)
qed

lemma ids_ok_step_race:
  assumes "ids_ok f st" and "step_race f i st = Some st'"
  shows "ids_ok f st'"
proof -
  from assms(2) have ctl: "control st = Racing"
    by (auto simp: step_race_def split: if_splits)
  from assms(2) obtain e where e: "find (\<lambda>e. eid e = i) (buffer st) = Some e"
    by (auto simp: step_race_def split: if_splits option.splits)
  from find_eid [OF e] have mem: "e \<in> set (buffer st)" by simp
  with assms(1) have range: "1 \<le> eid e" "eid e \<le> counter st"
    by (auto simp: ids_ok_def)
  from assms(1) ctl have core: "ids_ok f (st\<lparr>control := Racing\<rparr>)"
    by (simp add: ids_ok_control)
  let ?st = "st\<lparr>buffer := delete_entry e (buffer st)\<rparr>"
  from core have core': "ids_ok f (?st\<lparr>control := Racing\<rparr>)"
    by (auto simp: ids_ok_def held_ok_def distinct_delete_entry set_delete_entry)
  have fresh: "eid e \<notin> set (map eid (buffer ?st))"
    by (simp add: set_delete_entry)
  from core' range fresh
  have held: "ids_ok f (?st\<lparr>emitted := out, control := AtChunkYield e\<rparr>)" for out
    by (cases f) (auto simp: ids_ok_def held_ok_def)
  from assms(1) range
  have held': "f = Delimited \<Longrightarrow> ids_ok f (st\<lparr>emitted := out, control := AtChunkYield e\<rparr>)"
    for out
    by (auto simp: ids_ok_def held_ok_def ctl)
  note fin = ids_ok_finally_block [OF core] ids_ok_finally_block [OF core']
    ids_ok_loop_head [OF core']
  from assms(2) ctl e held held' fin show ?thesis
    by (cases f)
      (auto simp: step_race_def Let_def split: next_promise.splits option.splits if_splits)
qed

lemma ids_ok_step_abandon:
  assumes "ids_ok f st" and "step_abandon st = Some st'"
  shows "ids_ok f st'"
  using assms
  by (auto simp: step_abandon_def split: control.splits
      intro: ids_ok_finally_block ids_ok_control)

lemma ids_ok_step: "ids_ok f st \<Longrightarrow> step f tc opts a st = Some st' \<Longrightarrow> ids_ok f st'"
  by (cases a)
    (auto simp: step_def
      intro: ids_ok_step_next ids_ok_step_settle ids_ok_step_race ids_ok_step_abandon)

lemma ids_ok_run: "ids_ok f st \<Longrightarrow> run f tc opts acts st = Some st' \<Longrightarrow> ids_ok f st'"
  by (induction acts arbitrary: st) (auto split: option.splits dest: ids_ok_step)

lemma ids_ok_stringifyAsync: "ids_ok f (stringifyAsync v)"
  by (simp add: ids_ok_def held_ok_def stringifyAsync_def)

lemma count_list_distinct: "distinct xs \<Longrightarrow> x \<in> set xs \<Longrightarrow> count_list xs x = 1"
  by (induction xs) auto

text \<open>
  C8. In every state an encoder can reach, under any schedule: the ids handed out by
  \<^verbatim>\<open>registerAsyncIterable\<close> so far are 1, 2, 3, ... up to \<open>counter\<close>, in this order, so
  none is 0 and none is handed out twice; the live entries (those of \<^verbatim>\<open>buffer\<close>, and in
  \<open>JsonArray\<close> the entry held at the \<^verbatim>\<open>yield\<close> of its chunk) have pairwise different ids,
  each handed out by exactly one registration; and the next registration increments
  \<open>counter\<close> once and hands out the new value.
\<close>

theorem producer_ids:
  assumes "run f tc opts acts (stringifyAsync v) = Some st"
  shows "registrations st = [1..<Suc (counter st)] \<and>
    0 \<notin> set (registrations st) \<and>
    distinct (registrations st) \<and>
    distinct (map eid (active f st)) \<and>
    list_all (\<lambda>e. count_list (registrations st) (eid e) = 1) (active f st) \<and>
    registerAsyncIterable g st =
      (Suc (counter st),
       st\<lparr>counter := Suc (counter st),
          buffer := buffer st @ [Entry (Suc (counter st)) g False Pending],
          registrations := registrations st @ [Suc (counter st)]\<rparr>)"
proof -
  from ids_ok_run [OF ids_ok_stringifyAsync assms] have ok: "ids_ok f st" .
  then have regs: "registrations st = [1..<Suc (counter st)]"
    by (simp add: ids_ok_def map_Suc_upt)
  from ok have act: "distinct (map eid (active f st))"
    and sub: "set (map eid (active f st)) \<subseteq> {1..counter st}"
    by (auto simp: ids_ok_def held_ok_def active_def split: control.splits framing.splits)
  have "count_list (registrations st) (eid e) = 1" if "e \<in> set (active f st)" for e
  proof -
    from that sub have "eid e \<in> set [1..<Suc (counter st)]" by auto
    then show ?thesis
      unfolding regs by (intro count_list_distinct) simp_all
  qed
  then have cnt: "list_all (\<lambda>e. count_list (registrations st) (eid e) = 1) (active f st)"
    by (simp add: list_all_iff)
  have reg: "registerAsyncIterable g st =
      (Suc (counter st),
       st\<lparr>counter := Suc (counter st),
          buffer := buffer st @ [Entry (Suc (counter st)) g False Pending],
          registrations := registrations st @ [Suc (counter st)]\<rparr>)"
    by (simp add: registerAsyncIterable_def Let_def)
  from regs act cnt reg show ?thesis by simp
qed

section \<open>Sample runs of the encoder\<close>

lemmas encoder_defs =
  step_def step_next_def step_settle_def step_race_def step_abandon_def stringifyAsync_def
  recurse_def safeCause_def registerAsyncIterable_def producer_defs finally_return_def
  gen_return_def finally_block_def closed_def loop_head_def rearm_def delete_entry_def
  chunk_of_def root_chunk_def sample_defs Let_def
  PROMISE_STATUS_FULFILLED_def PROMISE_STATUS_REJECTED_def ASYNC_ITERABLE_STATUS_YIELD_def
  ASYNC_ITERABLE_STATUS_RETURN_def ASYNC_ITERABLE_STATUS_ERROR_def

text \<open>
  The encoder of \<open>sample_sequence\<close>, pulled twice: the root chunk, then the chunk of the
  first item, at whose \<^verbatim>\<open>yield\<close> the encoder is suspended.
\<close>

lemma sample_run_json:
  "run JsonArray sample_codec no_options [Next, Settle 1, Next, Race 1]
     (stringifyAsync sample_sequence) =
   Some \<lparr>counter = 1, buffer = [],
     control = AtChunkYield (Entry 1 (AtYield [] (Return (VNum 2))) False
       (Resolved (IterResult (Some (1, 0, ''[1]'')) False))),
     registrations = [1], returned = [],
     emitted = [sequence_text @ [CHR 0x0A], ''[1,0,[1]]'' @ [CHR 0x0A]]\<rparr>"
  by (simp add: encoder_defs dec.simps)

lemma sample_run_delimited:
  "run Delimited sample_codec no_options [Next, Settle 1, Next, Race 1]
     (stringifyAsync sample_sequence) =
   Some \<lparr>counter = 1,
     buffer = [Entry 1 (AtYield [] (Return (VNum 2))) False
       (Resolved (IterResult (Some (1, 0, ''[1]'')) False))],
     control = AtChunkYield (Entry 1 (AtYield [] (Return (VNum 2))) False
       (Resolved (IterResult (Some (1, 0, ''[1]'')) False))),
     registrations = [1], returned = [],
     emitted = [sequence_text, ''1:0:[1]'']\<rparr>"
  by (simp add: encoder_defs dec.simps)


text \<open>
  The encoder of a thenable without \<^verbatim>\<open>catch\<close>: the root chunk, and then the TypeError of
  the call \<^verbatim>\<open>v.catch(...)\<close>, which the race over the producers throws.
\<close>

lemma thenable_run:
  "run f sample_codec no_options [Next, Next, Settle 1, Race 1] (stringifyAsync VThenable) =
   Some \<lparr>counter = 1, buffer = [Entry 1 Completed False (Rejected NotAFunction)],
     control = Failed NotAFunction, registrations = [1], returned = [],
     emitted = [root_chunk f promise_text]\<rparr>"
  by (cases f) (simp_all add: encoder_defs dec.simps)
theorem producer_ids_witness:
  "run JsonArray sample_codec no_options [Next, Settle 1, Next, Race 1]
     (stringifyAsync sample_sequence) =
   Some \<lparr>counter = 1, buffer = [],
     control = AtChunkYield (Entry 1 (AtYield [] (Return (VNum 2))) False
       (Resolved (IterResult (Some (1, 0, ''[1]'')) False))),
     registrations = [1], returned = [],
     emitted = [sequence_text @ [CHR 0x0A], ''[1,0,[1]]'' @ [CHR 0x0A]]\<rparr> \<and>
   map eid (active JsonArray
     \<lparr>counter = 1, buffer = [],
       control = AtChunkYield (Entry 1 (AtYield [] (Return (VNum 2))) False
         (Resolved (IterResult (Some (1, 0, ''[1]'')) False))),
       registrations = [1], returned = [],
       emitted = [sequence_text @ [CHR 0x0A], ''[1,0,[1]]'' @ [CHR 0x0A]]\<rparr>) = [1] \<and>
   fst (registerAsyncIterable (AwaitPromise (Fulfill (VNum 2)))
     \<lparr>counter = 1, buffer = [],
       control = AtChunkYield (Entry 1 (AtYield [] (Return (VNum 2))) False
         (Resolved (IterResult (Some (1, 0, ''[1]'')) False))),
       registrations = [1], returned = [],
       emitted = [sequence_text @ [CHR 0x0A], ''[1,0,[1]]'' @ [CHR 0x0A]]\<rparr>) = 2"
proof -
  let ?S = "\<lparr>counter = 1, buffer = [],
     control = AtChunkYield (Entry 1 (AtYield [] (Return (VNum 2))) False
       (Resolved (IterResult (Some (1, 0, ''[1]'')) False))),
     registrations = [1], returned = [],
     emitted = [sequence_text @ [CHR 0x0A], ''[1,0,[1]]'' @ [CHR 0x0A]]\<rparr>"
  have 1: "run JsonArray sample_codec no_options [Next, Settle 1, Next, Race 1]
     (stringifyAsync sample_sequence) = Some ?S"
    by (rule sample_run_json)
  from producer_ids [OF 1, of "AwaitPromise (Fulfill (VNum 2))"]
  have 2: "distinct (map eid (active JsonArray ?S))"
    and 3: "fst (registerAsyncIterable (AwaitPromise (Fulfill (VNum 2))) ?S) = 2"
    by simp_all
  have 4: "map eid (active JsonArray ?S) = [1]"
    by (simp add: active_def)
  from 1 3 4 show ?thesis by (intro conjI)
qed

section \<open>Abandoning the encoder (C6)\<close>

text \<open>
  C6 fails in \<open>JsonArray\<close>. The consumer of the encoder of \<open>sample_sequence\<close> takes the
  root chunk and the chunk of the first item and then calls \<^verbatim>\<open>return()\<close>. The encoder is
  suspended at the \<^verbatim>\<open>yield\<close> of that chunk, where the entry of producer 1 has been
  deleted from \<^verbatim>\<open>buffer\<close> and not yet added again: the \<^verbatim>\<open>finally\<close> block finds an empty
  \<^verbatim>\<open>buffer\<close>, the encoder finishes, and the \<^verbatim>\<open>return\<close> of the source iterator is never
  called. In \<open>Delimited\<close>, which yields before it deletes, the same schedule calls it once.
\<close>

theorem abandon_at_chunk_yield:
  "run JsonArray sample_codec no_options [Next, Settle 1, Next, Race 1, Abandon]
     (stringifyAsync sample_sequence) =
   Some \<lparr>counter = 1, buffer = [], control = Finished, registrations = [1], returned = [],
     emitted = [sequence_text @ [CHR 0x0A], ''[1,0,[1]]'' @ [CHR 0x0A]]\<rparr> \<and>
   run Delimited sample_codec no_options [Next, Settle 1, Next, Race 1, Abandon]
     (stringifyAsync sample_sequence) =
   Some \<lparr>counter = 1,
     buffer = [Entry 1 Completed False (Resolved (IterResult (Some (1, 0, ''[1]'')) False))],
     control = Finished, registrations = [1], returned = [1],
     emitted = [sequence_text, ''1:0:[1]'']\<rparr>"
  by (simp add: encoder_defs dec.simps)

text \<open>
  Abandoned at the \<^verbatim>\<open>yield\<close> of the root chunk, the encoder of either variant calls
  \<^verbatim>\<open>return()\<close> on producer 1 while its \<^verbatim>\<open>next()\<close> is running; the request waits, the
  encoder with it, until the source answers, and the source iterator's \<^verbatim>\<open>return\<close> is then
  called once.
\<close>

lemma abandon_at_root_yield:
  "run f sample_codec no_options [Next, Abandon] (stringifyAsync sample_sequence) =
   Some \<lparr>counter = 1, buffer = [Entry 1 (AwaitNext [VNum 1] (Return (VNum 2))) True Pending],
     control = Closing None, registrations = [1], returned = [],
     emitted = [root_chunk f sequence_text]\<rparr> \<and>
   run f sample_codec no_options [Next, Abandon, Settle 1] (stringifyAsync sample_sequence) =
   Some \<lparr>counter = 1,
     buffer = [Entry 1 Completed False (Resolved (IterResult (Some (1, 0, ''[1]'')) False))],
     control = Finished, registrations = [1], returned = [1],
     emitted = [root_chunk f sequence_text]\<rparr>"
  by (cases f) (simp_all add: encoder_defs dec.simps)

section \<open>A truncated chunk sequence (C3)\<close>

lemmas decoder_defs =
  parseAsync_def dstep_def pull_def decoder0_def root_chunk_def sample_defs pump_defs
  PROMISE_STATUS_FULFILLED_def PROMISE_STATUS_REJECTED_def
  ASYNC_ITERABLE_STATUS_YIELD_def ASYNC_ITERABLE_STATUS_RETURN_def
  ASYNC_ITERABLE_STATUS_ERROR_def

text \<open>
  In \<open>JsonArray\<close>, when the chunk sequence ends, every sink registered at that moment
  receives \<^verbatim>\<open>Error("Stream interrupted: malformed stream")\<close>, and the pump stops;
  \<open>sinks_ok\<close> holds of every state the decoder reaches (\<open>sinks_ok_reachable\<close>).
\<close>

lemma truncation_json:
  assumes "sinks_ok JsonArray st" and "(idx, h) \<in> set (enqueueMap st)"
  shows "revived (pump_end JsonArray st) ! h =
      receive JsonArray (Err StreamInterruptedMalformed) (revived st ! h) \<and>
    \<not> pumping (pump_end JsonArray st)"
proof -
  from assms(2) have "h \<in> set (map snd (enqueueMap st))" by force
  with reached_json [OF assms(1)] have h: "h \<in> set (reached st)" by simp
  obtain r st1 where e: "enqueue_all JsonArray StreamInterruptedMalformed st = (r, st1)"
    by (cases "enqueue_all JsonArray StreamInterruptedMalformed st")
  from enqueue_all_reached(2) [OF assms(1) h, of JsonArray StreamInterruptedMalformed] e
  have 1: "revived st1 ! h = receive JsonArray (Err StreamInterruptedMalformed) (revived st ! h)"
    by simp
  have "list_all (sink_open st) (map snd (enqueueMap st))"
    using assms(1) by (auto simp: list_all_iff dest: sinks_ok_json_open)
  with enqueue_all_reached(4) [OF assms(1), of JsonArray StreamInterruptedMalformed] e
  have "r = Inr ()" by simp
  with e 1 show ?thesis by (simp add: pump_end_def)
qed

text \<open>
  C3 fails in \<open>Delimited\<close>. The decoder is given the root chunk \<open>promise_text\<close> (a Promise with
  producer id 1) and then the end of the chunk sequence. The pump of
  \<^verbatim>\<open>parseAsyncIterable\<close> leaves its loop and ends: nothing is delivered, the sink stays
  registered and the Promise stays pending. The pump of \<^verbatim>\<open>parseAsync\<close>, given the same,
  rejects the Promise with the stream-interrupted error.
\<close>

theorem truncation_after_root_chunk:
  "parseAsync Delimited sample_codec [] (Head (Some promise_text) False) =
     (Inr (DPromise 0),
      \<lparr>enqueueMap = [(1, 0)], revived = [RevPromise 1 PWaiting], pumping = True\<rparr>) \<and>
   drun Delimited sample_codec [] [End]
     \<lparr>enqueueMap = [(1, 0)], revived = [RevPromise 1 PWaiting], pumping = True\<rparr> =
     Some \<lparr>enqueueMap = [(1, 0)], revived = [RevPromise 1 PWaiting], pumping = False\<rparr> \<and>
   parseAsync JsonArray sample_codec [] (Head (Some (promise_text @ [CHR 0x0A])) False) =
     (Inr (DPromise 0),
      \<lparr>enqueueMap = [(1, 0)], revived = [RevPromise 1 PWaiting], pumping = True\<rparr>) \<and>
   drun JsonArray sample_codec [] [End]
     \<lparr>enqueueMap = [(1, 0)], revived = [RevPromise 1 PWaiting], pumping = True\<rparr> =
     Some \<lparr>enqueueMap = [],
       revived = [RevPromise 1 (PRejected (ThrownError StreamInterruptedMalformed))],
       pumping = False\<rparr>"
  by (simp add: decoder_defs dec.simps)

text \<open>
  In both variants a decoded AsyncIterable registers its sink at its first pull only. One
  that has not been pulled when the chunk sequence ends has no sink then, receives nothing,
  and its first pull afterwards stays unanswered.
\<close>

lemma truncation_before_first_pull:
  "parseAsync f sample_codec [] (Head (Some (root_chunk f sequence_text)) False) =
     (Inr (DAsyncIterable 0),
      \<lparr>enqueueMap = [], revived = [RevIterable 1 IterNew [] []], pumping = True\<rparr>) \<and>
   drun f sample_codec [] [End, Pull 0]
     \<lparr>enqueueMap = [], revived = [RevIterable 1 IterNew [] []], pumping = True\<rparr> =
     Some \<lparr>enqueueMap = [(1, 0)], revived = [RevIterable 1 IterReading [] []],
       pumping = False\<rparr>"
  by (cases f) (simp_all add: decoder_defs dec.simps)

section \<open>Encoding and decoding a sequence (C1)\<close>

text \<open>
  C1 fails for a sequence whose consumer pulls late. \<^verbatim>\<open>stringifyAsync\<close> encodes
  \<open>sample_sequence\<close> (one item, 1, then the return value 2) as three chunks. \<^verbatim>\<open>parseAsync\<close>
  decodes the root chunk to an AsyncIterable that has registered no sink yet. When the two
  producer chunks and the end of the chunk sequence arrive before the consumer's first
  \<^verbatim>\<open>next()\<close>, both frames find no sink and are dropped, and the pull that follows stays
  unanswered: the decoded sequence gives neither the item nor the return value. When the
  consumer pulls before each frame arrives, it is given both.
\<close>

theorem late_pull_loses_frames:
  "run JsonArray sample_codec no_options
     [Next, Settle 1, Next, Race 1, Next, Settle 1, Race 1, Next, Race 1]
     (stringifyAsync sample_sequence) =
     Some \<lparr>counter = 1, buffer = [], control = Finished, registrations = [1],
       returned = [1],
       emitted = [sequence_text @ [CHR 0x0A], ''[1,0,[1]]'' @ [CHR 0x0A], ''[1,2,[2]]'' @ [CHR 0x0A]]\<rparr> \<and>
   parseAsync JsonArray sample_codec [] (Head (Some (sequence_text @ [CHR 0x0A])) False) =
     (Inr (DAsyncIterable 0),
      \<lparr>enqueueMap = [], revived = [RevIterable 1 IterNew [] []], pumping = True\<rparr>) \<and>
   drun JsonArray sample_codec []
     [Chunk (''[1,0,[1]]'' @ [CHR 0x0A]), Chunk (''[1,2,[2]]'' @ [CHR 0x0A]), End, Pull 0]
     \<lparr>enqueueMap = [], revived = [RevIterable 1 IterNew [] []], pumping = True\<rparr> =
     Some \<lparr>enqueueMap = [(1, 0)], revived = [RevIterable 1 IterReading [] []],
       pumping = False\<rparr> \<and>
   drun JsonArray sample_codec []
     [Pull 0, Chunk (''[1,0,[1]]'' @ [CHR 0x0A]), Pull 0, Chunk (''[1,2,[2]]'' @ [CHR 0x0A]), End]
     \<lparr>enqueueMap = [], revived = [RevIterable 1 IterNew [] []], pumping = True\<rparr> =
     Some \<lparr>enqueueMap = [],
       revived = [RevIterable 1 IterEnded [] [Yielded (DNum 1), Done (Some (DNum 2))]],
       pumping = False\<rparr>"
proof (intro conjI)
  show "run JsonArray sample_codec no_options
     [Next, Settle 1, Next, Race 1, Next, Settle 1, Race 1, Next, Race 1]
     (stringifyAsync sample_sequence) =
     Some \<lparr>counter = 1, buffer = [], control = Finished, registrations = [1],
       returned = [1],
       emitted = [sequence_text @ [CHR 0x0A], ''[1,0,[1]]'' @ [CHR 0x0A], ''[1,2,[2]]'' @ [CHR 0x0A]]\<rparr>"
    by (simp add: encoder_defs dec.simps)
qed (simp_all add: decoder_defs dec.simps)


text \<open>
  The same in \<open>Delimited\<close>: \<^verbatim>\<open>stringifyAsyncIterable\<close> gives the three chunks, and
  \<^verbatim>\<open>parseAsyncIterable\<close>, pulled late, drops both frames. Pulled in time, the decoded
  sequence answers its second pull when the \<^verbatim>\<open>finally\<close> block of its reviver has run.
\<close>

lemma late_pull_loses_frames_delimited:
  "run Delimited sample_codec no_options
     [Next, Settle 1, Next, Race 1, Next, Settle 1, Race 1, Next]
     (stringifyAsync sample_sequence) =
     Some \<lparr>counter = 1, buffer = [], control = Finished, registrations = [1],
       returned = [1], emitted = [sequence_text, ''1:0:[1]'', ''1:1:[2]'']\<rparr> \<and>
   parseAsync Delimited sample_codec [] (Head (Some sequence_text) False) =
     (Inr (DAsyncIterable 0),
      \<lparr>enqueueMap = [], revived = [RevIterable 1 IterNew [] []], pumping = True\<rparr>) \<and>
   drun Delimited sample_codec [] [Chunk ''1:0:[1]'', Chunk ''1:1:[2]'', End, Pull 0]
     \<lparr>enqueueMap = [], revived = [RevIterable 1 IterNew [] []], pumping = True\<rparr> =
     Some \<lparr>enqueueMap = [(1, 0)], revived = [RevIterable 1 IterReading [] []],
       pumping = False\<rparr> \<and>
   drun Delimited sample_codec []
     [Pull 0, Chunk ''1:0:[1]'', Pull 0, Chunk ''1:1:[2]'', Cancelled 0, End]
     \<lparr>enqueueMap = [], revived = [RevIterable 1 IterNew [] []], pumping = True\<rparr> =
     Some \<lparr>enqueueMap = [],
       revived = [RevIterable 1 IterEnded [] [Yielded (DNum 1), Done (Some (DNum 2))]],
       pumping = False\<rparr>"
proof (intro conjI)
  show "run Delimited sample_codec no_options
     [Next, Settle 1, Next, Race 1, Next, Settle 1, Race 1, Next]
     (stringifyAsync sample_sequence) =
     Some \<lparr>counter = 1, buffer = [], control = Finished, registrations = [1],
       returned = [1], emitted = [sequence_text, ''1:0:[1]'', ''1:1:[2]'']\<rparr>"
    by (simp add: encoder_defs dec.simps)
qed (simp_all add: decoder_defs dec.simps)
end
